theory Spec2Isabelle
  imports Complex_Main "HOL-Library.Sublist"
begin

section \<open>JavaScript values and strings\<close>

text \<open>
  The schema core of the repository is a TypeScript module of pure functions:
  \<^verbatim>\<open>createSchema\<close>, the table \<^verbatim>\<open>schemaPatterns\<close>, \<^verbatim>\<open>generateSchemas\<close>,
  \<^verbatim>\<open>getDefaultSchema\<close>, \<^verbatim>\<open>validateSchema\<close>, \<^verbatim>\<open>formatSchema\<close> and
  \<^verbatim>\<open>schemaToString\<close>.

  A JavaScript string is modelled as a \<^typ>\<open>string\<close>: a list of 8-bit code units, read as
  Latin-1. Texts with code units above \<open>0xFF\<close> are outside the model. A JavaScript number is
  modelled by its exact rational value (the catalog only holds small integers); IEEE rounding
  is not modelled. An object is an association list in key insertion order; the keys of
  the objects built here are never array indices, so insertion order is enumeration order.
\<close>

datatype json =
    JNull
  | JBool bool
  | JNumber rat
  | JString string
  | JArray "json list"
  | JObject "(string \<times> json) list"

text \<open>ToBoolean on the values above, as used by \<^verbatim>\<open>if (value.items)\<close>.\<close>

fun truthy :: "json \<Rightarrow> bool" where
  "truthy JNull = False"
| "truthy (JBool b) = b"
| "truthy (JNumber n) = (n \<noteq> 0)"
| "truthy (JString s) = (s \<noteq> [])"
| "truthy (JArray vs) = True"
| "truthy (JObject kvs) = True"

text \<open>\<^verbatim>\<open>obj[key] = v\<close>: an existing key keeps its place, a new key is appended.\<close>

fun setProp :: "(string \<times> json) list \<Rightarrow> string \<Rightarrow> json \<Rightarrow> (string \<times> json) list" where
  "setProp [] key v = [(key, v)]"
| "setProp ((k, w) # kvs) key v =
     (if k = key then (k, v) # kvs else (k, w) # setProp kvs key v)"

text \<open>\<^verbatim>\<open>obj[key]\<close> and \<^verbatim>\<open>obj.key\<close>; \<open>None\<close> is \<^verbatim>\<open>undefined\<close>.\<close>

fun getProp :: "json \<Rightarrow> string \<Rightarrow> json option" where
  "getProp (JObject kvs) key = map_of kvs key"
| "getProp _ key = None"

text \<open>\<^verbatim>\<open>acc[key].name = v\<close>, where \<^verbatim>\<open>acc[key]\<close> is an object.\<close>

fun setNested :: "(string \<times> json) list \<Rightarrow> string \<Rightarrow> string \<Rightarrow> json \<Rightarrow> (string \<times> json) list" where
  "setNested [] key name v = []"
| "setNested ((k, w) # kvs) key name v =
     (if k = key
      then (k, (case w of JObject fields \<Rightarrow> JObject (setProp fields name v) | _ \<Rightarrow> w)) # kvs
      else (k, w) # setNested kvs key name v)"

text \<open>\<^verbatim>\<open>String.prototype.includes\<close>: the argument occurs as a contiguous substring.\<close>

fun includes_str :: "string \<Rightarrow> string \<Rightarrow> bool" where
  "includes_str [] keyword = (keyword = [])"
| "includes_str (c # cs) keyword = (prefix keyword (c # cs) \<or> includes_str cs keyword)"

text \<open>
  \<^verbatim>\<open>String.prototype.toLowerCase\<close> on Latin-1 code units: \<open>A\<close>--\<open>Z\<close> and the accented
  capitals \<open>0xC0\<close>--\<open>0xDE\<close> (without the multiplication sign \<open>0xD7\<close>) move up by 32, every
  other code unit stays.
\<close>

definition toLowerChar :: "char \<Rightarrow> char" where
  "toLowerChar c =
     (let n = (of_char c :: nat)
      in if (65 \<le> n \<and> n \<le> 90) \<or> (192 \<le> n \<and> n \<le> 214) \<or> (216 \<le> n \<and> n \<le> 222)
         then char_of (n + 32) else c)"

definition toLowerCase :: "string \<Rightarrow> string" where
  "toLowerCase s = map toLowerChar s"

text \<open>
  \<^verbatim>\<open>String.prototype.trim\<close> removes white space and line terminators at both ends; below
  \<open>0x100\<close> these are TAB, LF, VT, FF, CR, space and the no-break space \<open>0xA0\<close>.
\<close>

definition isWhiteSpace :: "char \<Rightarrow> bool" where
  "isWhiteSpace c = ((of_char c :: nat) \<in> {9, 10, 11, 12, 13, 32, 160})"

definition trim :: "string \<Rightarrow> string" where
  "trim s = rev (dropWhile isWhiteSpace (rev (dropWhile isWhiteSpace s)))"

section \<open>The schema builder\<close>

text \<open>
  \<^verbatim>\<open>interface SchemaSet { input: Record<string, any>; output: Record<string, any> }\<close>
\<close>

record SchemaSet =
  input :: json
  "output" :: json

text \<open>
  \<^verbatim>\<open>interface SchemaPattern { keywords: string[]; priority: number; generator: () => SchemaSet }\<close>
\<close>

record SchemaPattern =
  "keywords" :: "string list"
  priority :: int
  generator :: "unit \<Rightarrow> SchemaSet"

text \<open>
  The value type of the \<^verbatim>\<open>properties\<close> argument of \<^verbatim>\<open>createSchema\<close>:
  \<^verbatim>\<open>{ type: string; description: string; items?: any; minimum?: number; maximum?: number }\<close>.
  An absent optional field is \<open>None\<close>.
\<close>

record PropertySpec =
  type :: string
  description :: string
  items :: "json option"
  minimum :: "rat option"
  maximum :: "rat option"

text \<open>
  One round of the \<^verbatim>\<open>reduce\<close> callback of \<^verbatim>\<open>createSchema\<close>:
  \<^verbatim>\<open>
    acc[key] = { type: value.type, description: value.description };
    if (value.items) acc[key].items = value.items;
    if (value.minimum !== undefined) acc[key].minimum = value.minimum;
    if (value.maximum !== undefined) acc[key].maximum = value.maximum;
    return acc;
  \<close>
\<close>

definition addProperty :: "(string \<times> json) list \<Rightarrow> string \<times> PropertySpec \<Rightarrow> (string \<times> json) list" where
  "addProperty acc entry =
     (let key = fst entry; value = snd entry;
          acc1 = setProp acc key
                   (JObject [(''type'', JString (type value)),
                             (''description'', JString (description value))]);
          acc2 = (case items value of
                    Some i \<Rightarrow> if truthy i then setNested acc1 key ''items'' i else acc1
                  | None \<Rightarrow> acc1);
          acc3 = (case minimum value of
                    Some m \<Rightarrow> setNested acc2 key ''minimum'' (JNumber m)
                  | None \<Rightarrow> acc2);
          acc4 = (case maximum value of
                    Some m \<Rightarrow> setNested acc3 key ''maximum'' (JNumber m)
                  | None \<Rightarrow> acc3)
      in acc4)"

text \<open>
  \<^verbatim>\<open>createSchema(properties, required = [])\<close> returns
  \<^verbatim>\<open>{ type: "object", properties: Object.entries(properties).reduce(..., {}), required }\<close>.
  The first argument is the list of entries of \<^verbatim>\<open>properties\<close>, in insertion order.
\<close>

definition createSchema :: "(string \<times> PropertySpec) list \<Rightarrow> string list \<Rightarrow> json" where
  "createSchema properties required =
     JObject [(''type'', JString ''object''),
              (''properties'', JObject (foldl addProperty [] properties)),
              (''required'', JArray (map JString required))]"

section \<open>The catalog \<^verbatim>\<open>schemaPatterns\<close>\<close>

text \<open>
  The ten entries of the table, in the order of the source. Each entry and its generator
  gets a name here; in the source they are anonymous elements of the array literal.
\<close>

definition fraudSchemas :: "unit \<Rightarrow> SchemaSet" where
  "fraudSchemas = (\<lambda>_.
  \<lparr>input = createSchema
     [(''text_content'', \<lparr>type = ''string'', description = ''The text content to analyze'',
        items = None, minimum = None, maximum = None\<rparr>),
      (''sender_email'', \<lparr>type = ''string'', description = ''Email address of the sender'',
        items = None, minimum = None, maximum = None\<rparr>),
      (''subject'', \<lparr>type = ''string'', description = ''Email or message subject'',
        items = None, minimum = None, maximum = None\<rparr>),
      (''metadata'', \<lparr>type = ''object'', description = ''Additional contextual information'',
        items = None, minimum = None, maximum = None\<rparr>)]
     [''text_content''],
   output = createSchema
     [(''is_fraudulent'', \<lparr>type = ''boolean'', description = ''Whether the content is fraudulent'',
        items = None, minimum = None, maximum = None\<rparr>),
      (''confidence'', \<lparr>type = ''number'', description = ''Confidence score between 0 and 1'',
        items = None, minimum = Some 0, maximum = Some 1\<rparr>),
      (''risk_factors'', \<lparr>type = ''array'', description = ''List of identified risk factors'',
        items = Some (JObject [(''type'', JString ''string'')]), minimum = None, maximum = None\<rparr>),
      (''severity'', \<lparr>type = ''string'', description = ''Risk level: low, medium, high'',
        items = None, minimum = None, maximum = None\<rparr>)]
     [''is_fraudulent'', ''confidence'']\<rparr>)"

definition fraudPattern :: SchemaPattern where
  "fraudPattern =
  \<lparr>keywords = [''fraud'', ''fraudulent'', ''scam'', ''spam'', ''phishing'', ''fake''],
   priority = 10,
   generator = fraudSchemas\<rparr>"

definition churnSchemas :: "unit \<Rightarrow> SchemaSet" where
  "churnSchemas = (\<lambda>_.
  \<lparr>input = createSchema
     [(''customer_id'', \<lparr>type = ''string'', description = ''Unique customer identifier'',
        items = None, minimum = None, maximum = None\<rparr>),
      (''days_active'', \<lparr>type = ''integer'', description = ''Number of days as customer'',
        items = None, minimum = Some 0, maximum = None\<rparr>),
      (''engagement_score'', \<lparr>type = ''number'', description = ''Engagement metric'',
        items = None, minimum = Some 0, maximum = Some 100\<rparr>),
      (''last_activity_days'', \<lparr>type = ''integer'', description = ''Days since last activity'',
        items = None, minimum = Some 0, maximum = None\<rparr>),
      (''support_tickets'', \<lparr>type = ''integer'', description = ''Number of support tickets filed'',
        items = None, minimum = Some 0, maximum = None\<rparr>)]
     [''customer_id'', ''days_active''],
   output = createSchema
     [(''will_churn'', \<lparr>type = ''boolean'', description = ''Predicted churn likelihood'',
        items = None, minimum = None, maximum = None\<rparr>),
      (''churn_probability'', \<lparr>type = ''number'', description = ''Probability between 0 and 1'',
        items = None, minimum = Some 0, maximum = Some 1\<rparr>),
      (''churn_date_estimate'', \<lparr>type = ''string'', description = ''Estimated date of churn (ISO 8601)'',
        items = None, minimum = None, maximum = None\<rparr>),
      (''retention_factors'', \<lparr>type = ''array'', description = ''Factors affecting retention'',
        items = Some (JObject [(''type'', JString ''string'')]), minimum = None, maximum = None\<rparr>)]
     [''will_churn'', ''churn_probability'']\<rparr>)"

definition churnPattern :: SchemaPattern where
  "churnPattern =
  \<lparr>keywords = [''churn'', ''retention'', ''attrition'', ''cancel'', ''unsubscribe''],
   priority = 10,
   generator = churnSchemas\<rparr>"

definition sentimentSchemas :: "unit \<Rightarrow> SchemaSet" where
  "sentimentSchemas = (\<lambda>_.
  \<lparr>input = createSchema
     [(''text'', \<lparr>type = ''string'', description = ''Text to analyze for sentiment'',
        items = None, minimum = None, maximum = None\<rparr>),
      (''language'', \<lparr>type = ''string'', description = ''Language code (e.g., en, es)'',
        items = None, minimum = None, maximum = None\<rparr>),
      (''context'', \<lparr>type = ''string'', description = ''Additional context about the text'',
        items = None, minimum = None, maximum = None\<rparr>)]
     [''text''],
   output = createSchema
     [(''sentiment'', \<lparr>type = ''string'', description = ''Sentiment classification: positive, negative, or neutral'',
        items = None, minimum = None, maximum = None\<rparr>),
      (''score'', \<lparr>type = ''number'', description = ''Sentiment score between -1 and 1'',
        items = None, minimum = Some (-1), maximum = Some 1\<rparr>),
      (''confidence'', \<lparr>type = ''number'', description = ''Confidence in prediction'',
        items = None, minimum = Some 0, maximum = Some 1\<rparr>),
      (''emotions'', \<lparr>type = ''object'', description = ''Breakdown of detected emotions'',
        items = None, minimum = None, maximum = None\<rparr>)]
     [''sentiment'', ''score'']\<rparr>)"

definition sentimentPattern :: SchemaPattern where
  "sentimentPattern =
  \<lparr>keywords = [''sentiment'', ''emotion'', ''feeling'', ''opinion'', ''review''],
   priority = 9,
   generator = sentimentSchemas\<rparr>"

definition classifySchemas :: "unit \<Rightarrow> SchemaSet" where
  "classifySchemas = (\<lambda>_.
  \<lparr>input = createSchema
     [(''text'', \<lparr>type = ''string'', description = ''Text to classify'',
        items = None, minimum = None, maximum = None\<rparr>),
      (''features'', \<lparr>type = ''object'', description = ''Additional features for classification'',
        items = None, minimum = None, maximum = None\<rparr>),
      (''metadata'', \<lparr>type = ''object'', description = ''Contextual metadata'',
        items = None, minimum = None, maximum = None\<rparr>)]
     [''text''],
   output = createSchema
     [(''category'', \<lparr>type = ''string'', description = ''Predicted category'',
        items = None, minimum = None, maximum = None\<rparr>),
      (''confidence'', \<lparr>type = ''number'', description = ''Confidence score'',
        items = None, minimum = Some 0, maximum = Some 1\<rparr>),
      (''all_categories'', \<lparr>type = ''array'', description = ''All possible categories with scores'',
        items = Some (JObject [(''type'', JString ''object'')]), minimum = None, maximum = None\<rparr>),
      (''reasoning'', \<lparr>type = ''string'', description = ''Explanation of classification'',
        items = None, minimum = None, maximum = None\<rparr>)]
     [''category'', ''confidence'']\<rparr>)"

definition classifyPattern :: SchemaPattern where
  "classifyPattern =
  \<lparr>keywords = [''classify'', ''classification'', ''categorize'', ''category'', ''label'', ''tag''],
   priority = 8,
   generator = classifySchemas\<rparr>"

definition priceSchemas :: "unit \<Rightarrow> SchemaSet" where
  "priceSchemas = (\<lambda>_.
  \<lparr>input = createSchema
     [(''features'', \<lparr>type = ''object'', description = ''Relevant features (size, location, etc.)'',
        items = None, minimum = None, maximum = None\<rparr>),
      (''category'', \<lparr>type = ''string'', description = ''Item category'',
        items = None, minimum = None, maximum = None\<rparr>),
      (''condition'', \<lparr>type = ''string'', description = ''Item condition'',
        items = None, minimum = None, maximum = None\<rparr>),
      (''market_data'', \<lparr>type = ''object'', description = ''Current market conditions'',
        items = None, minimum = None, maximum = None\<rparr>)]
     [''features'', ''category''],
   output = createSchema
     [(''predicted_price'', \<lparr>type = ''number'', description = ''Estimated price'',
        items = None, minimum = Some 0, maximum = None\<rparr>),
      (''price_range_min'', \<lparr>type = ''number'', description = ''Minimum price estimate'',
        items = None, minimum = Some 0, maximum = None\<rparr>),
      (''price_range_max'', \<lparr>type = ''number'', description = ''Maximum price estimate'',
        items = None, minimum = Some 0, maximum = None\<rparr>),
      (''confidence_interval'', \<lparr>type = ''number'', description = ''Confidence level'',
        items = None, minimum = Some 0, maximum = Some 1\<rparr>)]
     [''predicted_price'']\<rparr>)"

definition pricePattern :: SchemaPattern where
  "pricePattern =
  \<lparr>keywords = [''price'', ''pricing'', ''cost'', ''estimate'', ''valuation'', ''worth''],
   priority = 9,
   generator = priceSchemas\<rparr>"

definition recommendSchemas :: "unit \<Rightarrow> SchemaSet" where
  "recommendSchemas = (\<lambda>_.
  \<lparr>input = createSchema
     [(''user_id'', \<lparr>type = ''string'', description = ''User identifier'',
        items = None, minimum = None, maximum = None\<rparr>),
      (''user_preferences'', \<lparr>type = ''object'', description = ''User preferences and history'',
        items = None, minimum = None, maximum = None\<rparr>),
      (''context'', \<lparr>type = ''object'', description = ''Current context (time, location, etc.)'',
        items = None, minimum = None, maximum = None\<rparr>),
      (''num_recommendations'', \<lparr>type = ''integer'', description = ''Number of recommendations'',
        items = None, minimum = Some 1, maximum = None\<rparr>)]
     [''user_id''],
   output = createSchema
     [(''recommendations'', \<lparr>type = ''array'', description = ''List of recommended items'',
        items = Some (JObject [(''type'', JString ''object'')]), minimum = None, maximum = None\<rparr>),
      (''scores'', \<lparr>type = ''array'', description = ''Relevance scores for each item'',
        items = Some (JObject [(''type'', JString ''number'')]), minimum = None, maximum = None\<rparr>),
      (''reasoning'', \<lparr>type = ''object'', description = ''Explanation for recommendations'',
        items = None, minimum = None, maximum = None\<rparr>),
      (''diversity_score'', \<lparr>type = ''number'', description = ''Recommendation diversity'',
        items = None, minimum = Some 0, maximum = Some 1\<rparr>)]
     [''recommendations'']\<rparr>)"

definition recommendPattern :: SchemaPattern where
  "recommendPattern =
  \<lparr>keywords = [''recommend'', ''recommendation'', ''suggest'', ''personalize''],
   priority = 8,
   generator = recommendSchemas\<rparr>"

definition anomalySchemas :: "unit \<Rightarrow> SchemaSet" where
  "anomalySchemas = (\<lambda>_.
  \<lparr>input = createSchema
     [(''metrics'', \<lparr>type = ''object'', description = ''Metrics to analyze'',
        items = None, minimum = None, maximum = None\<rparr>),
      (''timestamp'', \<lparr>type = ''string'', description = ''ISO 8601 timestamp'',
        items = None, minimum = None, maximum = None\<rparr>),
      (''context'', \<lparr>type = ''object'', description = ''Contextual information'',
        items = None, minimum = None, maximum = None\<rparr>),
      (''baseline'', \<lparr>type = ''object'', description = ''Normal behavior baseline'',
        items = None, minimum = None, maximum = None\<rparr>)]
     [''metrics'', ''timestamp''],
   output = createSchema
     [(''is_anomaly'', \<lparr>type = ''boolean'', description = ''Whether anomaly detected'',
        items = None, minimum = None, maximum = None\<rparr>),
      (''anomaly_score'', \<lparr>type = ''number'', description = ''Anomaly severity'',
        items = None, minimum = Some 0, maximum = Some 1\<rparr>),
      (''anomaly_type'', \<lparr>type = ''string'', description = ''Type of anomaly detected'',
        items = None, minimum = None, maximum = None\<rparr>),
      (''affected_metrics'', \<lparr>type = ''array'', description = ''Metrics showing anomalies'',
        items = Some (JObject [(''type'', JString ''string'')]), minimum = None, maximum = None\<rparr>)]
     [''is_anomaly'', ''anomaly_score'']\<rparr>)"

definition anomalyPattern :: SchemaPattern where
  "anomalyPattern =
  \<lparr>keywords = [''anomaly'', ''outlier'', ''abnormal'', ''unusual'', ''detect''],
   priority = 8,
   generator = anomalySchemas\<rparr>"

definition imageSchemas :: "unit \<Rightarrow> SchemaSet" where
  "imageSchemas = (\<lambda>_.
  \<lparr>input = createSchema
     [(''image_url'', \<lparr>type = ''string'', description = ''URL to the image'',
        items = None, minimum = None, maximum = None\<rparr>),
      (''image_base64'', \<lparr>type = ''string'', description = ''Base64 encoded image'',
        items = None, minimum = None, maximum = None\<rparr>),
      (''max_labels'', \<lparr>type = ''integer'', description = ''Maximum number of labels to return'',
        items = None, minimum = Some 1, maximum = None\<rparr>)]
     [''image_url''],
   output = createSchema
     [(''labels'', \<lparr>type = ''array'', description = ''Detected labels/objects'',
        items = Some (JObject [(''type'', JString ''string'')]), minimum = None, maximum = None\<rparr>),
      (''confidence_scores'', \<lparr>type = ''array'', description = ''Confidence for each label'',
        items = Some (JObject [(''type'', JString ''number'')]), minimum = None, maximum = None\<rparr>),
      (''bounding_boxes'', \<lparr>type = ''array'', description = ''Coordinates of detected objects'',
        items = Some (JObject [(''type'', JString ''object'')]), minimum = None, maximum = None\<rparr>),
      (''metadata'', \<lparr>type = ''object'', description = ''Additional image information'',
        items = None, minimum = None, maximum = None\<rparr>)]
     [''labels'']\<rparr>)"

definition imagePattern :: SchemaPattern where
  "imagePattern =
  \<lparr>keywords = [''image'', ''photo'', ''picture'', ''visual'', ''recognize''],
   priority = 7,
   generator = imageSchemas\<rparr>"

definition summarizeSchemas :: "unit \<Rightarrow> SchemaSet" where
  "summarizeSchemas = (\<lambda>_.
  \<lparr>input = createSchema
     [(''text'', \<lparr>type = ''string'', description = ''Text to summarize'',
        items = None, minimum = None, maximum = None\<rparr>),
      (''max_length'', \<lparr>type = ''integer'', description = ''Maximum summary length in characters'',
        items = None, minimum = Some 1, maximum = None\<rparr>),
      (''style'', \<lparr>type = ''string'', description = ''Summary style (brief, detailed)'',
        items = None, minimum = None, maximum = None\<rparr>),
      (''key_points'', \<lparr>type = ''boolean'', description = ''Whether to extract key points'',
        items = None, minimum = None, maximum = None\<rparr>)]
     [''text''],
   output = createSchema
     [(''summary'', \<lparr>type = ''string'', description = ''Generated summary'',
        items = None, minimum = None, maximum = None\<rparr>),
      (''key_points'', \<lparr>type = ''array'', description = ''Main points extracted'',
        items = Some (JObject [(''type'', JString ''string'')]), minimum = None, maximum = None\<rparr>),
      (''length_ratio'', \<lparr>type = ''number'', description = ''Compression ratio'',
        items = None, minimum = Some 0, maximum = Some 1\<rparr>),
      (''important_entities'', \<lparr>type = ''array'', description = ''Key entities mentioned'',
        items = Some (JObject [(''type'', JString ''string'')]), minimum = None, maximum = None\<rparr>)]
     [''summary'']\<rparr>)"

definition summarizePattern :: SchemaPattern where
  "summarizePattern =
  \<lparr>keywords = [''summarize'', ''summary'', ''extract'', ''abstract'', ''tldr''],
   priority = 7,
   generator = summarizeSchemas\<rparr>"

definition predictSchemas :: "unit \<Rightarrow> SchemaSet" where
  "predictSchemas = (\<lambda>_.
  \<lparr>input = createSchema
     [(''features'', \<lparr>type = ''object'', description = ''Input features for prediction'',
        items = None, minimum = None, maximum = None\<rparr>),
      (''timestamp'', \<lparr>type = ''string'', description = ''Reference timestamp (ISO 8601)'',
        items = None, minimum = None, maximum = None\<rparr>),
      (''historical_data'', \<lparr>type = ''array'', description = ''Historical data points'',
        items = Some (JObject [(''type'', JString ''object'')]), minimum = None, maximum = None\<rparr>)]
     [''features''],
   output = createSchema
     [(''prediction'', \<lparr>type = ''number'', description = ''Predicted value'',
        items = None, minimum = None, maximum = None\<rparr>),
      (''confidence_interval'', \<lparr>type = ''object'', description = ''Upper and lower bounds'',
        items = None, minimum = None, maximum = None\<rparr>),
      (''trend'', \<lparr>type = ''string'', description = ''Predicted trend direction'',
        items = None, minimum = None, maximum = None\<rparr>),
      (''factors'', \<lparr>type = ''array'', description = ''Contributing factors'',
        items = Some (JObject [(''type'', JString ''string'')]), minimum = None, maximum = None\<rparr>)]
     [''prediction'']\<rparr>)"

definition predictPattern :: SchemaPattern where
  "predictPattern =
  \<lparr>keywords = [''predict'', ''forecast'', ''estimate''],
   priority = 5,
   generator = predictSchemas\<rparr>"

definition schemaPatterns :: "SchemaPattern list" where
  "schemaPatterns =
  [fraudPattern,
   churnPattern,
   sentimentPattern,
   classifyPattern,
   pricePattern,
   recommendPattern,
   anomalyPattern,
   imagePattern,
   summarizePattern,
   predictPattern]"

definition getDefaultSchema :: "unit \<Rightarrow> SchemaSet" where
  "getDefaultSchema = (\<lambda>_.
  \<lparr>input = createSchema
     [(''data'', \<lparr>type = ''object'', description = ''Your input data'',
        items = None, minimum = None, maximum = None\<rparr>),
      (''features'', \<lparr>type = ''object'', description = ''Relevant features'',
        items = None, minimum = None, maximum = None\<rparr>),
      (''metadata'', \<lparr>type = ''object'', description = ''Additional metadata'',
        items = None, minimum = None, maximum = None\<rparr>)]
     [''data''],
   output = createSchema
     [(''prediction'', \<lparr>type = ''string'', description = ''The model prediction'',
        items = None, minimum = None, maximum = None\<rparr>),
      (''confidence'', \<lparr>type = ''number'', description = ''Confidence score'',
        items = None, minimum = Some 0, maximum = Some 1\<rparr>),
      (''metadata'', \<lparr>type = ''object'', description = ''Additional information'',
        items = None, minimum = None, maximum = None\<rparr>)]
     [''prediction'']\<rparr>)"

section \<open>The matcher \<^verbatim>\<open>generateSchemas\<close>\<close>

text \<open>
  \<^verbatim>\<open>pattern.keywords.filter(keyword => lowerDescription.includes(keyword)).length\<close>
\<close>

definition matchCount :: "SchemaPattern \<Rightarrow> string \<Rightarrow> nat" where
  "matchCount pattern lowerDescription =
     length (filter (\<lambda>keyword. includes_str lowerDescription keyword) (keywords pattern))"

text \<open>\<^verbatim>\<open>const effectivePriority = pattern.priority * matchCount\<close>\<close>

definition effectivePriority :: "SchemaPattern \<Rightarrow> string \<Rightarrow> int" where
  "effectivePriority pattern lowerDescription =
     priority pattern * int (matchCount pattern lowerDescription)"

text \<open>
  The \<^verbatim>\<open>for (const pattern of schemaPatterns)\<close> loop. The state is the pair of the
  variables \<^verbatim>\<open>bestMatch\<close> (\<open>None\<close> is \<^verbatim>\<open>null\<close>) and \<^verbatim>\<open>highestPriority\<close>.
\<close>

fun scanPatterns ::
  "SchemaPattern list \<Rightarrow> string \<Rightarrow> SchemaPattern option \<times> int \<Rightarrow> SchemaPattern option \<times> int" where
  "scanPatterns [] lowerDescription (bestMatch, highestPriority) = (bestMatch, highestPriority)"
| "scanPatterns (pattern # rest) lowerDescription (bestMatch, highestPriority) =
     (if matchCount pattern lowerDescription > 0
      then if effectivePriority pattern lowerDescription > highestPriority
           then scanPatterns rest lowerDescription
                  (Some pattern, effectivePriority pattern lowerDescription)
           else scanPatterns rest lowerDescription (bestMatch, highestPriority)
      else scanPatterns rest lowerDescription (bestMatch, highestPriority))"

text \<open>
  The body of \<^verbatim>\<open>generateSchemas\<close> over a given table. The first test is
  \<^verbatim>\<open>!problemDescription || problemDescription.trim().length === 0\<close>; the empty string is
  the only falsy string.
\<close>

definition generateSchemasFrom :: "SchemaPattern list \<Rightarrow> string \<Rightarrow> SchemaSet" where
  "generateSchemasFrom patterns problemDescription =
     (if problemDescription = [] \<or> length (trim problemDescription) = 0
      then getDefaultSchema ()
      else let lowerDescription = toLowerCase problemDescription;
               bestMatch = fst (scanPatterns patterns lowerDescription (None, -1))
           in case bestMatch of
                Some pattern \<Rightarrow> generator pattern ()
              | None \<Rightarrow> getDefaultSchema ())"

definition generateSchemas :: "string \<Rightarrow> SchemaSet" where
  "generateSchemas problemDescription = generateSchemasFrom schemaPatterns problemDescription"


section \<open>\<^verbatim>\<open>JSON.parse\<close>\<close>

text \<open>
  \<^verbatim>\<open>JSON.parse\<close> is the platform's parser. It is modelled after the JSON grammar of
  ECMA-262 in two passes, both a single left-to-right run over the text: a scanner that cuts
  the text into tokens, and a pushdown machine that builds the value. A duplicate key keeps
  the place of its first occurrence and the value of its last, as \<^verbatim>\<open>CreateDataProperty\<close>
  does. The members of an object stand in the order of the text; JavaScript enumerates keys
  that are array indices first, which the model does not. A number literal denotes its
  exact decimal value. An escape \<^verbatim>\<open>\uXXXX\<close> denotes the code unit \<open>XXXX\<close>; the model keeps
  its low byte.
\<close>

datatype token =
    LBrace | RBrace | LBracket | RBracket | Colon | Comma
  | StringTok string
  | AtomTok json

definition isDigit :: "char \<Rightarrow> bool" where
  "isDigit c = (48 \<le> (of_char c :: nat) \<and> (of_char c :: nat) \<le> 57)"

definition digitVal :: "char \<Rightarrow> nat" where
  "digitVal c = (of_char c :: nat) - 48"

text \<open>The value of a run of decimal digits, most significant digit first.\<close>

definition digitsVal :: "string \<Rightarrow> nat" where
  "digitsVal ds = foldl (\<lambda>n c. 10 * n + digitVal c) 0 ds"

definition hexVal :: "char \<Rightarrow> nat option" where
  "hexVal c =
     (let n = (of_char c :: nat)
      in if 48 \<le> n \<and> n \<le> 57 then Some (n - 48)
         else if 65 \<le> n \<and> n \<le> 70 then Some (n - 55)
         else if 97 \<le> n \<and> n \<le> 102 then Some (n - 87)
         else None)"

text \<open>
  A number literal: \<^verbatim>\<open>-? (0 | [1-9][0-9]*) (. [0-9]+)? ([eE] [+-]? [0-9]+)?\<close>.
\<close>

definition exponentPart :: "string \<Rightarrow> int option" where
  "exponentPart s =
     (case s of
        [] \<Rightarrow> Some 0
      | c # r \<Rightarrow>
          if c = CHR ''e'' \<or> c = CHR ''E''
          then (let negative = (case r of [] \<Rightarrow> False | d # _ \<Rightarrow> d = CHR ''-'');
                    ds = (case r of [] \<Rightarrow> []
                          | d # r' \<Rightarrow> if d = CHR ''+'' \<or> d = CHR ''-'' then r' else r)
                in if ds \<noteq> [] \<and> list_all isDigit ds
                   then Some (if negative then - int (digitsVal ds) else int (digitsVal ds))
                   else None)
          else None)"

definition numberLiteral :: "string \<Rightarrow> rat option" where
  "numberLiteral s =
     (let negative = (case s of [] \<Rightarrow> False | c # _ \<Rightarrow> c = CHR ''-'');
          s1 = (if negative then tl s else s);
          ip = takeWhile isDigit s1;
          s2 = dropWhile isDigit s1;
          hasFraction = (case s2 of [] \<Rightarrow> False | c # _ \<Rightarrow> c = CHR ''.'');
          fp = (if hasFraction then takeWhile isDigit (tl s2) else []);
          s3 = (if hasFraction then dropWhile isDigit (tl s2) else s2)
      in if ip = [] \<or> (1 < length ip \<and> hd ip = CHR ''0'') \<or> (hasFraction \<and> fp = [])
         then None
         else (case exponentPart s3 of
                 None \<Rightarrow> None
               | Some e \<Rightarrow>
                   (let m = of_nat (digitsVal ip) + of_nat (digitsVal fp) / 10 ^ length fp;
                        v = (if 0 \<le> e then m * 10 ^ nat e else m / 10 ^ nat (- e))
                    in Some (if negative then - v else v))))"

text \<open>A maximal run of letters, digits, signs and dots is one literal or it is an error.\<close>

definition isWordChar :: "char \<Rightarrow> bool" where
  "isWordChar c =
     (let n = (of_char c :: nat)
      in (48 \<le> n \<and> n \<le> 57) \<or> (65 \<le> n \<and> n \<le> 90) \<or> (97 \<le> n \<and> n \<le> 122)
         \<or> c = CHR ''+'' \<or> c = CHR ''-'' \<or> c = CHR ''.'')"

definition wordToken :: "string \<Rightarrow> token option" where
  "wordToken w =
     (if w = ''null'' then Some (AtomTok JNull)
      else if w = ''true'' then Some (AtomTok (JBool True))
      else if w = ''false'' then Some (AtomTok (JBool False))
      else map_option (\<lambda>q. AtomTok (JNumber q)) (numberLiteral w))"

text \<open>JSON white space is TAB, LF, CR and space only.\<close>

definition isJsonSpace :: "char \<Rightarrow> bool" where
  "isJsonSpace c = ((of_char c :: nat) \<in> {9, 10, 13, 32})"

text \<open>
  The scanner's modes. The strings held by a mode are reversed: the last code unit read
  comes first.
\<close>

datatype scanMode =
    Idle
  | InWord string
  | InString string
  | InEscape string
  | InHex string "nat list"

definition scanIdle :: "char \<Rightarrow> (token list \<times> scanMode) option" where
  "scanIdle c =
     (if isJsonSpace c then Some ([], Idle)
      else if c = CHR ''{'' then Some ([LBrace], Idle)
      else if c = CHR ''}'' then Some ([RBrace], Idle)
      else if c = CHR ''['' then Some ([LBracket], Idle)
      else if c = CHR '']'' then Some ([RBracket], Idle)
      else if c = CHR '':'' then Some ([Colon], Idle)
      else if c = CHR '','' then Some ([Comma], Idle)
      else if c = CHR 0x22 then Some ([], InString [])
      else if isWordChar c then Some ([], InWord [c])
      else None)"

definition unescape :: "char \<Rightarrow> char option" where
  "unescape c =
     (if c = CHR 0x22 \<or> c = CHR 0x5C \<or> c = CHR ''/'' then Some c
      else if c = CHR ''b'' then Some (CHR 0x08)
      else if c = CHR ''f'' then Some (CHR 0x0C)
      else if c = CHR ''n'' then Some (CHR 0x0A)
      else if c = CHR ''r'' then Some (CHR 0x0D)
      else if c = CHR ''t'' then Some (CHR 0x09)
      else None)"

fun scanStep :: "scanMode \<Rightarrow> char \<Rightarrow> (token list \<times> scanMode) option" where
  "scanStep Idle c = scanIdle c"
| "scanStep (InWord w) c =
     (if isWordChar c then Some ([], InWord (c # w))
      else (case wordToken (rev w) of
              None \<Rightarrow> None
            | Some t \<Rightarrow> map_option (\<lambda>(ts, m). (t # ts, m)) (scanIdle c)))"
| "scanStep (InString acc) c =
     (if c = CHR 0x22 then Some ([StringTok (rev acc)], Idle)
      else if c = CHR 0x5C then Some ([], InEscape acc)
      else if (of_char c :: nat) < 32 then None
      else Some ([], InString (c # acc)))"
| "scanStep (InEscape acc) c =
     (if c = CHR ''u'' then Some ([], InHex acc [])
      else map_option (\<lambda>d. ([], InString (d # acc))) (unescape c))"
| "scanStep (InHex acc ds) c =
     (case hexVal c of
        None \<Rightarrow> None
      | Some d \<Rightarrow>
          if length ds = 3
          then Some ([], InString (char_of (foldl (\<lambda>n h. 16 * n + h) 0 (ds @ [d])) # acc))
          else Some ([], InHex acc (ds @ [d])))"

text \<open>The tokens of a text, or \<open>None\<close> when the text is not a sequence of JSON tokens.\<close>

fun scan :: "scanMode \<Rightarrow> string \<Rightarrow> token list option" where
  "scan Idle [] = Some []"
| "scan (InWord w) [] = map_option (\<lambda>t. [t]) (wordToken (rev w))"
| "scan _ [] = None"
| "scan mode (c # cs) =
     (case scanStep mode c of
        None \<Rightarrow> None
      | Some (ts, mode') \<Rightarrow> map_option (\<lambda>rest. ts @ rest) (scan mode' cs))"

text \<open>
  The pushdown machine. A frame is an array or an object under construction: the elements
  read so far (reversed), or the members set so far with the key that awaits its value.
\<close>

datatype frame =
    ArrayFrame "json list"
  | ObjectFrame "(string \<times> json) list" "string option"

datatype expect =
    Value | ValueOrEnd | KeyOrEnd | Key | ColonNext | CommaOrEnd

datatype parseState =
    Parsing expect "frame list"
  | Finished json

text \<open>A finished value goes to the innermost open container, or it is the result.\<close>

fun deliver :: "json \<Rightarrow> frame list \<Rightarrow> parseState option" where
  "deliver v [] = Some (Finished v)"
| "deliver v (ArrayFrame es # stack) = Some (Parsing CommaOrEnd (ArrayFrame (v # es) # stack))"
| "deliver v (ObjectFrame ms (Some k) # stack) =
     Some (Parsing CommaOrEnd (ObjectFrame (setProp ms k v) None # stack))"
| "deliver v (ObjectFrame ms None # stack) = None"

fun startValue :: "token \<Rightarrow> frame list \<Rightarrow> parseState option" where
  "startValue (AtomTok v) stack = deliver v stack"
| "startValue (StringTok s) stack = deliver (JString s) stack"
| "startValue LBracket stack = Some (Parsing ValueOrEnd (ArrayFrame [] # stack))"
| "startValue LBrace stack = Some (Parsing KeyOrEnd (ObjectFrame [] None # stack))"
| "startValue _ stack = None"

fun parseStep :: "parseState \<Rightarrow> token \<Rightarrow> parseState option" where
  "parseStep (Finished v) t = None"
| "parseStep (Parsing Value stack) t = startValue t stack"
| "parseStep (Parsing ValueOrEnd stack) t =
     (case (t, stack) of
        (RBracket, ArrayFrame [] # rest) \<Rightarrow> deliver (JArray []) rest
      | _ \<Rightarrow> startValue t stack)"
| "parseStep (Parsing KeyOrEnd stack) t =
     (case (t, stack) of
        (RBrace, ObjectFrame ms None # rest) \<Rightarrow> deliver (JObject ms) rest
      | (StringTok k, ObjectFrame ms None # rest) \<Rightarrow>
          Some (Parsing ColonNext (ObjectFrame ms (Some k) # rest))
      | _ \<Rightarrow> None)"
| "parseStep (Parsing Key stack) t =
     (case (t, stack) of
        (StringTok k, ObjectFrame ms None # rest) \<Rightarrow>
          Some (Parsing ColonNext (ObjectFrame ms (Some k) # rest))
      | _ \<Rightarrow> None)"
| "parseStep (Parsing ColonNext stack) t =
     (case t of Colon \<Rightarrow> Some (Parsing Value stack) | _ \<Rightarrow> None)"
| "parseStep (Parsing CommaOrEnd stack) t =
     (case (t, stack) of
        (Comma, ArrayFrame es # rest) \<Rightarrow> Some (Parsing Value stack)
      | (RBracket, ArrayFrame es # rest) \<Rightarrow> deliver (JArray (rev es)) rest
      | (Comma, ObjectFrame ms None # rest) \<Rightarrow> Some (Parsing Key stack)
      | (RBrace, ObjectFrame ms None # rest) \<Rightarrow> deliver (JObject ms) rest
      | _ \<Rightarrow> None)"

fun parseTokens :: "parseState \<Rightarrow> token list \<Rightarrow> json option" where
  "parseTokens (Finished v) [] = Some v"
| "parseTokens (Parsing e stack) [] = None"
| "parseTokens state (t # ts) =
     (case parseStep state t of
        None \<Rightarrow> None
      | Some state' \<Rightarrow> parseTokens state' ts)"

text \<open>
  What a \<^verbatim>\<open>throw\<close> carries: an instance of \<^verbatim>\<open>Error\<close> with its \<^verbatim>\<open>message\<close>, or any other
  value. \<^verbatim>\<open>JSON.parse\<close> throws a \<^verbatim>\<open>SyntaxError\<close>, which is an \<^verbatim>\<open>Error\<close>; the wording of
  its message is left to the engine, and the model uses one fixed text.
\<close>

datatype thrown =
    ErrorInstance string
  | OtherValue json

definition syntaxErrorMessage :: string where
  "syntaxErrorMessage = ''Unexpected token in JSON''"

definition JSON_parse :: "string \<Rightarrow> thrown + json" where
  "JSON_parse text =
     (case scan Idle text of
        None \<Rightarrow> Inl (ErrorInstance syntaxErrorMessage)
      | Some ts \<Rightarrow>
          (case parseTokens (Parsing Value []) ts of
             None \<Rightarrow> Inl (ErrorInstance syntaxErrorMessage)
           | Some v \<Rightarrow> Inr v))"

section \<open>\<^verbatim>\<open>validateSchema\<close>\<close>

text \<open>\<^verbatim>\<open>{ valid: boolean; error?: string; parsed?: Record<string, any> }\<close>\<close>

record ValidationResult =
  valid :: bool
  error :: "string option"
  parsed :: "json option"

text \<open>The \<^verbatim>\<open>typeof\<close> operator on the values \<^verbatim>\<open>JSON.parse\<close> can return.\<close>

fun typeof :: "json \<Rightarrow> string" where
  "typeof JNull = ''object''"
| "typeof (JBool b) = ''boolean''"
| "typeof (JNumber n) = ''number''"
| "typeof (JString s) = ''string''"
| "typeof (JArray vs) = ''object''"
| "typeof (JObject kvs) = ''object''"

fun isArray :: "json \<Rightarrow> bool" where
  "isArray (JArray vs) = True"
| "isArray _ = False"

text \<open>
  \<^verbatim>\<open>try { body } catch (error) { handler }\<close>: a computation either throws (\<open>Inl\<close>) or
  returns (\<open>Inr\<close>); what the body throws goes to the handler.
\<close>

definition tryCatch :: "thrown + 'a \<Rightarrow> (thrown \<Rightarrow> thrown + 'a) \<Rightarrow> thrown + 'a" where
  "tryCatch body handler = (case body of Inl e \<Rightarrow> handler e | Inr r \<Rightarrow> Inr r)"

text \<open>
  \<^verbatim>\<open>validateSchema\<close>. Its result is \<open>Inr\<close> of the returned object, or \<open>Inl\<close> of a value
  thrown out of the function. The constant \<^verbatim>\<open>parsed\<close> of the source is \<open>p\<close> here and the
  caught \<^verbatim>\<open>error\<close> is \<open>e\<close>, as the record fields have these names.
\<close>

definition validateSchema :: "string \<Rightarrow> thrown + ValidationResult" where
  "validateSchema schemaString =
     (if schemaString = [] \<or> length (trim schemaString) = 0
      then Inr \<lparr>valid = True, error = None, parsed = Some (JObject [])\<rparr>
      else tryCatch
             (case JSON_parse schemaString of
                Inl e \<Rightarrow> Inl e
              | Inr p \<Rightarrow>
                  if typeof p \<noteq> ''object'' \<or> p = JNull \<or> isArray p
                  then Inr \<lparr>valid = False,
                            error = Some ''Schema must be a JSON object, not an array or primitive value'',
                            parsed = None\<rparr>
                  else Inr \<lparr>valid = True, error = None, parsed = Some p\<rparr>)
             (\<lambda>e. Inr \<lparr>valid = False,
                            error = Some (case e of
                                            ErrorInstance message \<Rightarrow> message
                                          | OtherValue _ \<Rightarrow> ''Invalid JSON syntax''),
                            parsed = None\<rparr>))"

section \<open>\<^verbatim>\<open>JSON.stringify\<close> and \<^verbatim>\<open>formatSchema\<close>\<close>

text \<open>
  \<^verbatim>\<open>Number::toString\<close>. An integer is printed in decimal notation, which is what
  JavaScript prints for integers below \<open>10\<^sup>2\<^sup>1\<close> in absolute value. For any other number the
  model prints the decimal expansion, cut after 20 fraction digits; JavaScript prints the
  shortest digits that read back as the same double.
\<close>

definition digitChar :: "nat \<Rightarrow> char" where
  "digitChar d = char_of (48 + d)"

function showNat :: "nat \<Rightarrow> string" where
  "showNat n = (if n < 10 then [digitChar n] else showNat (n div 10) @ [digitChar (n mod 10)])"
  by pat_completeness auto
termination
  by (relation "measure id") auto

declare showNat.simps [simp del]

fun showFraction :: "nat \<Rightarrow> rat \<Rightarrow> string" where
  "showFraction 0 r = []"
| "showFraction (Suc k) r =
     (if r = 0 then []
      else digitChar (nat \<lfloor>10 * r\<rfloor>) # showFraction k (10 * r - of_int \<lfloor>10 * r\<rfloor>))"

definition numberToString :: "rat \<Rightarrow> string" where
  "numberToString q =
     (let a = \<bar>q\<bar>; whole = nat \<lfloor>a\<rfloor>; r = a - of_nat whole
      in (if q < 0 then ''-'' else []) @ showNat whole
         @ (if r = 0 then [] else ''.'' @ showFraction 20 r))"

text \<open>
  \<^verbatim>\<open>QuoteJSONString\<close>: the quote, the backslash and the control characters are escaped.
\<close>

definition hexDigit :: "nat \<Rightarrow> char" where
  "hexDigit d = (if d < 10 then char_of (48 + d) else char_of (87 + d))"

definition quoteChar :: "char \<Rightarrow> string" where
  "quoteChar c =
     (let n = (of_char c :: nat)
      in if c = CHR 0x08 then [CHR 0x5C, CHR ''b'']
         else if c = CHR 0x09 then [CHR 0x5C, CHR ''t'']
         else if c = CHR 0x0A then [CHR 0x5C, CHR ''n'']
         else if c = CHR 0x0C then [CHR 0x5C, CHR ''f'']
         else if c = CHR 0x0D then [CHR 0x5C, CHR ''r'']
         else if c = CHR 0x22 then [CHR 0x5C, CHR 0x22]
         else if c = CHR 0x5C then [CHR 0x5C, CHR 0x5C]
         else if n < 32 then [CHR 0x5C, CHR ''u'', CHR ''0'', CHR ''0'', hexDigit (n div 16), hexDigit (n mod 16)]
         else [c])"

definition quoteJSONString :: "string \<Rightarrow> string" where
  "quoteJSONString s = [CHR 0x22] @ concat (map quoteChar s) @ [CHR 0x22]"

text \<open>\<^verbatim>\<open>Array.prototype.join\<close> on a list of strings.\<close>

fun joinWith :: "'a list \<Rightarrow> 'a list list \<Rightarrow> 'a list" where
  "joinWith sep [] = []"
| "joinWith sep [x] = x"
| "joinWith sep (x # y # ys) = x @ sep @ joinWith sep (y # ys)"

text \<open>
  \<^verbatim>\<open>SerializeJSONProperty\<close>, \<^verbatim>\<open>SerializeJSONObject\<close> and \<^verbatim>\<open>SerializeJSONArray\<close> for a
  non-empty \<^verbatim>\<open>gap\<close>; the second argument is the current indentation.
\<close>

fun serialize :: "string \<Rightarrow> string \<Rightarrow> json \<Rightarrow> string" where
  "serialize gap indent JNull = ''null''"
| "serialize gap indent (JBool b) = (if b then ''true'' else ''false'')"
| "serialize gap indent (JNumber q) = numberToString q"
| "serialize gap indent (JString s) = quoteJSONString s"
| "serialize gap indent (JArray vs) =
     (if vs = [] then ''[]''
      else (let stepback = indent; indent = indent @ gap;
                partial = map (serialize gap indent) vs;
                separator = '','' @ [CHR 0x0A] @ indent
            in ''['' @ [CHR 0x0A] @ indent @ joinWith separator partial
               @ [CHR 0x0A] @ stepback @ '']''))"
| "serialize gap indent (JObject kvs) =
     (if kvs = [] then ''{}''
      else (let stepback = indent; indent = indent @ gap;
                partial = map (\<lambda>(k, v). quoteJSONString k @ '': '' @ serialize gap indent v) kvs;
                separator = '','' @ [CHR 0x0A] @ indent
            in ''{'' @ [CHR 0x0A] @ indent @ joinWith separator partial
               @ [CHR 0x0A] @ stepback @ ''}''))"

text \<open>\<^verbatim>\<open>JSON.stringify(value, null, 2)\<close>: the gap is two spaces.\<close>

definition JSON_stringify2 :: "json \<Rightarrow> string" where
  "JSON_stringify2 v = serialize ''  '' [] v"

text \<open>\<^verbatim>\<open>formatSchema(schemaObject)\<close> returns \<^verbatim>\<open>JSON.stringify(schemaObject, null, 2)\<close>.\<close>

definition formatSchema :: "json \<Rightarrow> string" where
  "formatSchema schemaObject = JSON_stringify2 schemaObject"


section \<open>Reading a schema object\<close>

text \<open>
  The claims speak of the \<^verbatim>\<open>required\<close> array, the \<^verbatim>\<open>properties\<close> map and the bounds of a
  field. The functions below read them off a value; they are not part of the source.
\<close>

text \<open>\<^verbatim>\<open>v.k1.k2...\<close>, \<open>None\<close> where a step is \<^verbatim>\<open>undefined\<close>.\<close>

fun getPath :: "json \<Rightarrow> string list \<Rightarrow> json option" where
  "getPath v [] = Some v"
| "getPath v (k # ks) = (case getProp v k of None \<Rightarrow> None | Some w \<Rightarrow> getPath w ks)"

text \<open>\<^verbatim>\<open>Object.entries\<close> of an object; empty for any other value.\<close>

fun entriesOf :: "json \<Rightarrow> (string \<times> json) list" where
  "entriesOf (JObject kvs) = kvs"
| "entriesOf _ = []"

text \<open>The fields of \<^verbatim>\<open>schema.properties\<close> and the names in \<^verbatim>\<open>schema.required\<close>.\<close>

definition propertiesOf :: "json \<Rightarrow> (string \<times> json) list" where
  "propertiesOf schema = (case getProp schema ''properties'' of None \<Rightarrow> [] | Some ps \<Rightarrow> entriesOf ps)"

fun stringsOf :: "json list \<Rightarrow> string list" where
  "stringsOf [] = []"
| "stringsOf (JString s # vs) = s # stringsOf vs"
| "stringsOf (_ # vs) = stringsOf vs"

definition requiredOf :: "json \<Rightarrow> string list" where
  "requiredOf schema =
     (case getProp schema ''required'' of Some (JArray vs) \<Rightarrow> stringsOf vs | _ \<Rightarrow> [])"

text \<open>
  The shape \<^verbatim>\<open>createSchema\<close> gives: \<^verbatim>\<open>properties\<close> is an object and \<^verbatim>\<open>required\<close> is an
  array of strings, so that the two readers above lose nothing.
\<close>

definition schemaShaped :: "json \<Rightarrow> bool" where
  "schemaShaped schema =
     (getProp schema ''properties'' = Some (JObject (propertiesOf schema))
      \<and> getProp schema ''required'' = Some (JArray (map JString (requiredOf schema))))"

text \<open>Every name listed in \<^verbatim>\<open>required\<close> is a key of \<^verbatim>\<open>properties\<close>.\<close>

definition requiredDeclared :: "json \<Rightarrow> bool" where
  "requiredDeclared schema =
     list_all (\<lambda>name. name \<in> set (map fst (propertiesOf schema))) (requiredOf schema)"

text \<open>
  A field that carries both a \<^verbatim>\<open>minimum\<close> and a \<^verbatim>\<open>maximum\<close> has two numbers there, in
  order.
\<close>

definition fieldBoundsOrdered :: "json \<Rightarrow> bool" where
  "fieldBoundsOrdered field =
     (case (getProp field ''minimum'', getProp field ''maximum'') of
        (Some lo, Some hi) \<Rightarrow>
          (case (lo, hi) of (JNumber a, JNumber b) \<Rightarrow> a \<le> b | _ \<Rightarrow> False)
      | _ \<Rightarrow> True)"

definition boundsOrdered :: "json \<Rightarrow> bool" where
  "boundsOrdered schema = list_all (\<lambda>entry. fieldBoundsOrdered (snd entry)) (propertiesOf schema)"

section \<open>Reading a formatted text\<close>

text \<open>The lines of a text: the pieces between line feeds.\<close>

fun splitLines :: "string \<Rightarrow> string list" where
  "splitLines [] = [[]]"
| "splitLines (c # cs) =
     (case splitLines cs of
        [] \<Rightarrow> [[c]]
      | l # ls \<Rightarrow> if c = CHR 0x0A then [] # l # ls else (c # l) # ls)"

definition indentOf :: "string \<Rightarrow> nat" where
  "indentOf line = length (takeWhile (\<lambda>c. c = CHR '' '') line)"

text \<open>
  A text is indented by two spaces per level when every line starts with twice as many
  spaces as there are brackets open at that line. In a formatted text a bracket opens at
  the end of a line and closes at the start of one: a line that ends with an opening
  bracket opens a level for the lines after it, and a line that starts with a closing
  bracket is already one level out.
\<close>

definition closesLevel :: "string \<Rightarrow> bool" where
  "closesLevel line =
     (case dropWhile (\<lambda>c. c = CHR '' '') line of
        [] \<Rightarrow> False
      | c # _ \<Rightarrow> c = CHR ''}'' \<or> c = CHR '']'')"

definition opensLevel :: "string \<Rightarrow> bool" where
  "opensLevel line =
     (case rev line of
        [] \<Rightarrow> False
      | c # _ \<Rightarrow> c = CHR ''{'' \<or> c = CHR ''['')"

text \<open>The level of a line that is read with \<open>depth\<close> brackets open, and the depth after it.\<close>

definition levelOf :: "nat \<Rightarrow> string \<Rightarrow> nat" where
  "levelOf depth line = (if closesLevel line then depth - 1 else depth)"

definition depthAfterLine :: "nat \<Rightarrow> string \<Rightarrow> nat" where
  "depthAfterLine depth line =
     (if opensLevel line then levelOf depth line + 1 else levelOf depth line)"

fun depthAfter :: "nat \<Rightarrow> string list \<Rightarrow> nat" where
  "depthAfter depth [] = depth"
| "depthAfter depth (line # rest) = depthAfter (depthAfterLine depth line) rest"

fun indentedFrom :: "nat \<Rightarrow> string list \<Rightarrow> bool" where
  "indentedFrom depth [] = True"
| "indentedFrom depth (line # rest) =
     ((if closesLevel line then 0 < depth else True)
      \<and> indentOf line = 2 * levelOf depth line
      \<and> indentedFrom (depthAfterLine depth line) rest)"

definition indentedBy2 :: "string \<Rightarrow> bool" where
  "indentedBy2 text = indentedFrom 0 (splitLines text)"

text \<open>
  A piece of text stays on its line and neither opens nor closes a level when it holds no
  line feed, does not start with a space or a closing bracket and does not end with an
  opening bracket.
\<close>

definition inlinePiece :: "string \<Rightarrow> bool" where
  "inlinePiece t \<longleftrightarrow>
     t \<noteq> [] \<and> CHR 0x0A \<notin> set t
     \<and> hd t \<noteq> CHR '' '' \<and> hd t \<noteq> CHR ''}'' \<and> hd t \<noteq> CHR '']''
     \<and> last t \<noteq> CHR ''{'' \<and> last t \<noteq> CHR ''[''"

section \<open>Values that survive the round trip\<close>

text \<open>
  The tokens of the text that \<^verbatim>\<open>JSON.stringify\<close> writes for a value.
\<close>

fun tokensOf :: "json \<Rightarrow> token list" where
  "tokensOf (JString s) = [StringTok s]"
| "tokensOf (JArray vs) =
     (if vs = [] then [LBracket, RBracket]
      else LBracket # joinWith [Comma] (map tokensOf vs) @ [RBracket])"
| "tokensOf (JObject kvs) =
     (if kvs = [] then [LBrace, RBrace]
      else LBrace # joinWith [Comma] (map (\<lambda>(k, v). StringTok k # Colon # tokensOf v) kvs)
           @ [RBrace])"
| "tokensOf v = [AtomTok v]"

text \<open>
  A literal in a text ends where the text ends or a character follows that cannot
  continue it.
\<close>

definition wordEnds :: "string \<Rightarrow> bool" where
  "wordEnds rest = (case rest of [] \<Rightarrow> True | c # _ \<Rightarrow> \<not> isWordChar c)"

text \<open>
  A value is plain when its numbers are integers and no object in it has two members with
  the same key. The objects that \<^verbatim>\<open>createSchema\<close> builds from the catalog are plain.
\<close>

fun plain :: "json \<Rightarrow> bool" where
  "plain (JNumber q) = (of_int \<lfloor>q\<rfloor> = q)"
| "plain (JArray vs) = list_all plain vs"
| "plain (JObject kvs) = (distinct (map fst kvs) \<and> list_all (\<lambda>kv. plain (snd kv)) kvs)"
| "plain v = True"

section \<open>The catalog as the specification lists it\<close>

text \<open>
  The keyword sets and priorities in the order in which section 4.1 of the specification
  enumerates them. This list follows the specification's words, not the source, and is
  compared with \<open>schemaPatterns\<close> below.
\<close>

definition specCatalog :: "(string list \<times> int) list" where
  "specCatalog =
    [([''fraud'', ''fraudulent'', ''scam'', ''spam'', ''phishing'', ''fake''], 10),
     ([''churn'', ''retention'', ''attrition'', ''cancel'', ''unsubscribe''], 10),
     ([''sentiment'', ''emotion'', ''feeling'', ''opinion'', ''review''], 9),
     ([''price'', ''pricing'', ''cost'', ''estimate'', ''valuation'', ''worth''], 9),
     ([''classify'', ''classification'', ''categorize'', ''category'', ''label'', ''tag''], 8),
     ([''recommend'', ''recommendation'', ''suggest'', ''personalize''], 8),
     ([''anomaly'', ''outlier'', ''abnormal'', ''unusual'', ''detect''], 8),
     ([''image'', ''photo'', ''picture'', ''visual'', ''recognize''], 7),
     ([''summarize'', ''summary'', ''extract'', ''abstract'', ''tldr''], 7),
     ([''predict'', ''forecast'', ''estimate''], 5)]"

text \<open>The keyword set and priority of each entry of the source's table, in its order.\<close>

definition catalogOrder :: "(string list \<times> int) list" where
  "catalogOrder = map (\<lambda>pattern. (keywords pattern, priority pattern)) schemaPatterns"


section \<open>Substrings, lower case and blank texts\<close>

lemma includes_str_iff: "includes_str s k \<longleftrightarrow> (\<exists>ps ss. s = ps @ k @ ss)"
proof (induction s)
  case Nil
  then show ?case by auto
next
  case (Cons c cs)
  show ?case
  proof
    assume "includes_str (c # cs) k"
    then consider "prefix k (c # cs)" | "includes_str cs k" by auto
    then show "\<exists>ps ss. c # cs = ps @ k @ ss"
    proof cases
      case 1
      then obtain ss where "c # cs = k @ ss" by (auto simp: prefix_def)
      then have "c # cs = [] @ k @ ss" by simp
      then show ?thesis by blast
    next
      case 2
      with Cons.IH obtain ps ss where "cs = ps @ k @ ss" by blast
      then have "c # cs = (c # ps) @ k @ ss" by simp
      then show ?thesis by blast
    qed
  next
    assume "\<exists>ps ss. c # cs = ps @ k @ ss"
    then obtain ps ss where e: "c # cs = ps @ k @ ss" by blast
    show "includes_str (c # cs) k"
    proof (cases ps)
      case Nil
      with e have "prefix k (c # cs)" by (simp add: prefix_def)
      then show ?thesis by simp
    next
      case (Cons p ps')
      with e have "cs = ps' @ k @ ss" by simp
      with Cons.IH have "includes_str cs k" by blast
      then show ?thesis by simp
    qed
  qed
qed

lemma includes_str_part:
  "includes_str s (k1 @ k2) \<Longrightarrow> includes_str s k1"
proof -
  assume "includes_str s (k1 @ k2)"
  then obtain ps ss where "s = ps @ (k1 @ k2) @ ss" by (auto simp: includes_str_iff)
  then have "s = ps @ k1 @ (k2 @ ss)" by simp
  then show ?thesis unfolding includes_str_iff by blast
qed

lemma includes_str_set: "includes_str s k \<Longrightarrow> set k \<subseteq> set s"
  by (auto simp: includes_str_iff)

lemma includes_str_toLowerCase:
  assumes "includes_str s k" and "toLowerCase k = k"
  shows "includes_str (toLowerCase s) k"
proof -
  from assms(1) obtain ps ss where "s = ps @ k @ ss" by (auto simp: includes_str_iff)
  then have "toLowerCase s = toLowerCase ps @ toLowerCase k @ toLowerCase ss"
    by (simp add: toLowerCase_def)
  with assms(2) show ?thesis unfolding includes_str_iff by metis
qed

lemma trim_empty_iff: "trim s = [] \<longleftrightarrow> (\<forall>c\<in>set s. isWhiteSpace c)"
proof
  assume t: "trim s = []"
  show "\<forall>c\<in>set s. isWhiteSpace c"
  proof (cases "dropWhile isWhiteSpace s")
    case Nil
    then show ?thesis by (simp add: dropWhile_eq_Nil_conv)
  next
    case (Cons x xs)
    then have "\<not> isWhiteSpace x" using hd_dropWhile [of isWhiteSpace s] by simp
    moreover from t have "\<forall>c\<in>set (dropWhile isWhiteSpace s). isWhiteSpace c"
      by (simp add: trim_def dropWhile_eq_Nil_conv)
    ultimately show ?thesis using Cons by simp
  qed
next
  assume "\<forall>c\<in>set s. isWhiteSpace c"
  then have "dropWhile isWhiteSpace s = []" by (simp add: dropWhile_eq_Nil_conv)
  then show "trim s = []" by (simp only: trim_def rev.simps dropWhile.simps)
qed

lemma toLowerChar_white: "isWhiteSpace c \<Longrightarrow> toLowerChar c = c"
  by (auto simp: isWhiteSpace_def toLowerChar_def Let_def)

text \<open>A keyword found in a blank text consists of white space.\<close>

lemma blank_includes:
  assumes "trim s = []" and "includes_str (toLowerCase s) k"
  shows "\<forall>c\<in>set k. isWhiteSpace c"
proof
  fix c assume "c \<in> set k"
  with includes_str_set [OF assms(2)] have "c \<in> set (toLowerCase s)" by blast
  then obtain d where d: "d \<in> set s" "c = toLowerChar d" by (auto simp: toLowerCase_def)
  with assms(1) have "isWhiteSpace d" by (simp add: trim_empty_iff)
  with d show "isWhiteSpace c" by (simp add: toLowerChar_white)
qed

section \<open>The scan of the table\<close>

lemma scanPatterns_result:
  "scanPatterns ps ld (b, h) = (b', h') \<Longrightarrow>
     (b' = b \<and> h' = h \<and> (\<forall>q\<in>set ps. 0 < matchCount q ld \<longrightarrow> effectivePriority q ld \<le> h))
   \<or> (\<exists>xs p ys. ps = xs @ p # ys \<and> b' = Some p \<and> h' = effectivePriority p ld
          \<and> 0 < matchCount p ld \<and> h < effectivePriority p ld
          \<and> (\<forall>q\<in>set xs. 0 < matchCount q ld \<longrightarrow> effectivePriority q ld < effectivePriority p ld)
          \<and> (\<forall>q\<in>set ys. 0 < matchCount q ld \<longrightarrow> effectivePriority q ld \<le> effectivePriority p ld))"
proof (induction ps arbitrary: b h)
  case Nil
  then show ?case by simp
next
  case (Cons p ps)
  show ?case
  proof (cases "0 < matchCount p ld \<and> h < effectivePriority p ld")
    case True
    with Cons.prems have r: "scanPatterns ps ld (Some p, effectivePriority p ld) = (b', h')"
      by simp
    from Cons.IH [OF r] show ?thesis
    proof
      assume a: "b' = Some p \<and> h' = effectivePriority p ld \<and>
        (\<forall>q\<in>set ps. 0 < matchCount q ld \<longrightarrow> effectivePriority q ld \<le> effectivePriority p ld)"
      have "p # ps = [] @ p # ps" by simp
      with a True show ?thesis by (intro disjI2 exI [of _ "[]"] exI [of _ p] exI [of _ ps]) simp
    next
      assume "\<exists>xs p' ys. ps = xs @ p' # ys \<and> b' = Some p' \<and> h' = effectivePriority p' ld
          \<and> 0 < matchCount p' ld \<and> effectivePriority p ld < effectivePriority p' ld
          \<and> (\<forall>q\<in>set xs. 0 < matchCount q ld \<longrightarrow> effectivePriority q ld < effectivePriority p' ld)
          \<and> (\<forall>q\<in>set ys. 0 < matchCount q ld \<longrightarrow> effectivePriority q ld \<le> effectivePriority p' ld)"
      then obtain xs p' ys where d: "ps = xs @ p' # ys" "b' = Some p'" "h' = effectivePriority p' ld"
          "0 < matchCount p' ld" "effectivePriority p ld < effectivePriority p' ld"
          "\<forall>q\<in>set xs. 0 < matchCount q ld \<longrightarrow> effectivePriority q ld < effectivePriority p' ld"
          "\<forall>q\<in>set ys. 0 < matchCount q ld \<longrightarrow> effectivePriority q ld \<le> effectivePriority p' ld"
        by blast
      from d True show ?thesis
        by (intro disjI2 exI [of _ "p # xs"] exI [of _ p'] exI [of _ ys]) auto
    qed
  next
    case False
    with Cons.prems have r: "scanPatterns ps ld (b, h) = (b', h')"
      by (simp split: if_splits)
    from Cons.IH [OF r] show ?thesis
    proof
      assume a: "b' = b \<and> h' = h \<and>
        (\<forall>q\<in>set ps. 0 < matchCount q ld \<longrightarrow> effectivePriority q ld \<le> h)"
      with False show ?thesis by auto
    next
      assume "\<exists>xs p' ys. ps = xs @ p' # ys \<and> b' = Some p' \<and> h' = effectivePriority p' ld
          \<and> 0 < matchCount p' ld \<and> h < effectivePriority p' ld
          \<and> (\<forall>q\<in>set xs. 0 < matchCount q ld \<longrightarrow> effectivePriority q ld < effectivePriority p' ld)
          \<and> (\<forall>q\<in>set ys. 0 < matchCount q ld \<longrightarrow> effectivePriority q ld \<le> effectivePriority p' ld)"
      then obtain xs p' ys where d: "ps = xs @ p' # ys" "b' = Some p'" "h' = effectivePriority p' ld"
          "0 < matchCount p' ld" "h < effectivePriority p' ld"
          "\<forall>q\<in>set xs. 0 < matchCount q ld \<longrightarrow> effectivePriority q ld < effectivePriority p' ld"
          "\<forall>q\<in>set ys. 0 < matchCount q ld \<longrightarrow> effectivePriority q ld \<le> effectivePriority p' ld"
        by blast
      from d False show ?thesis
        by (intro disjI2 exI [of _ "p # xs"] exI [of _ p'] exI [of _ ys]) auto
    qed
  qed
qed

lemma scanPatterns_keep:
  "\<forall>q\<in>set ys. 0 < matchCount q ld \<longrightarrow> effectivePriority q ld \<le> h \<Longrightarrow>
   scanPatterns ys ld (b, h) = (b, h)"
  by (induction ys) auto

lemma scanPatterns_below:
  "\<forall>q\<in>set xs. 0 < matchCount q ld \<longrightarrow> effectivePriority q ld < s \<Longrightarrow> h < s \<Longrightarrow>
   snd (scanPatterns xs ld (b, h)) < s"
  by (induction xs arbitrary: b h) auto

lemma scanPatterns_append:
  "scanPatterns (xs @ ys) ld (b, h) = scanPatterns ys ld (scanPatterns xs ld (b, h))"
  by (induction xs arbitrary: b h) auto

text \<open>The first entry that reaches the highest score of the matching entries is chosen.\<close>

lemma scanPatterns_first_max:
  assumes "0 < matchCount p ld"
    and "\<forall>q\<in>set xs. 0 < matchCount q ld \<longrightarrow> effectivePriority q ld < effectivePriority p ld"
    and "\<forall>q\<in>set ys. 0 < matchCount q ld \<longrightarrow> effectivePriority q ld \<le> effectivePriority p ld"
    and "h < effectivePriority p ld"
  shows "scanPatterns (xs @ p # ys) ld (b, h) = (Some p, effectivePriority p ld)"
proof -
  obtain b1 h1 where s1: "scanPatterns xs ld (b, h) = (b1, h1)" by force
  from scanPatterns_below [OF assms(2) assms(4), of b] s1 have "h1 < effectivePriority p ld"
    by simp
  with assms(1) have "scanPatterns (p # ys) ld (b1, h1) = scanPatterns ys ld (Some p, effectivePriority p ld)"
    by simp
  also have "\<dots> = (Some p, effectivePriority p ld)"
    using assms(3) by (rule scanPatterns_keep)
  finally show ?thesis by (simp add: scanPatterns_append s1)
qed


section \<open>Facts about the catalog\<close>

lemmas pattern_defs =
  fraudPattern_def churnPattern_def sentimentPattern_def classifyPattern_def pricePattern_def
  recommendPattern_def anomalyPattern_def imagePattern_def summarizePattern_def predictPattern_def

lemma catalog_priority_pos: "p \<in> set schemaPatterns \<Longrightarrow> 0 < priority p"
  by (auto simp: schemaPatterns_def pattern_defs)

lemma catalog_keywords_not_blank:
  "p \<in> set schemaPatterns \<Longrightarrow> k \<in> set (keywords p) \<Longrightarrow> \<exists>c\<in>set k. \<not> isWhiteSpace c"
  by (auto simp: schemaPatterns_def pattern_defs isWhiteSpace_def)

lemma matchCount_pos_iff:
  "0 < matchCount p ld \<longleftrightarrow> (\<exists>k\<in>set (keywords p). includes_str ld k)"
  by (auto simp: matchCount_def filter_empty_conv)

lemma matchCount_zero_iff:
  "matchCount p ld = 0 \<longleftrightarrow> (\<forall>k\<in>set (keywords p). \<not> includes_str ld k)"
  by (auto simp: matchCount_def filter_empty_conv)

lemma blank_no_match:
  assumes "trim d = []" and "p \<in> set schemaPatterns"
  shows "matchCount p (toLowerCase d) = 0"
  unfolding matchCount_zero_iff
proof
  fix k assume k: "k \<in> set (keywords p)"
  show "\<not> includes_str (toLowerCase d) k"
  proof
    assume "includes_str (toLowerCase d) k"
    from blank_includes [OF assms(1) this] catalog_keywords_not_blank [OF assms(2) k]
    show False by blast
  qed
qed

lemma effectivePriority_pos:
  "p \<in> set schemaPatterns \<Longrightarrow> 0 < matchCount p ld \<Longrightarrow> 0 < effectivePriority p ld"
  by (simp add: effectivePriority_def catalog_priority_pos)

lemma effectivePriority_zero:
  "matchCount p ld = 0 \<Longrightarrow> effectivePriority p ld = 0"
  by (simp add: effectivePriority_def)

section \<open>What \<open>generateSchemas\<close> returns\<close>

lemma trim_Nil: "trim [] = []"
  by (simp add: trim_def)

lemma generateSchemas_blank:
  "trim d = [] \<Longrightarrow> generateSchemasFrom patterns d = getDefaultSchema ()"
  by (simp add: generateSchemasFrom_def)

lemma generateSchemas_nonblank:
  "trim d \<noteq> [] \<Longrightarrow>
   generateSchemas d =
     (case fst (scanPatterns schemaPatterns (toLowerCase d) (None, -1)) of
        Some pattern \<Rightarrow> generator pattern ()
      | None \<Rightarrow> getDefaultSchema ())"
  by (auto simp: generateSchemas_def generateSchemasFrom_def Let_def trim_Nil)

lemma generateSchemas_first_max:
  assumes "schemaPatterns = xs @ p # ys"
    and "0 < matchCount p (toLowerCase d)"
    and "\<forall>q\<in>set xs. 0 < matchCount q (toLowerCase d)
           \<longrightarrow> effectivePriority q (toLowerCase d) < effectivePriority p (toLowerCase d)"
    and "\<forall>q\<in>set ys. 0 < matchCount q (toLowerCase d)
           \<longrightarrow> effectivePriority q (toLowerCase d) \<le> effectivePriority p (toLowerCase d)"
  shows "generateSchemas d = generator p ()"
proof -
  from assms(1) have p: "p \<in> set schemaPatterns" by (metis in_set_conv_decomp)
  with assms(2) blank_no_match [of d p] have nb: "trim d \<noteq> []" by auto
  from p assms(2) have "-1 < effectivePriority p (toLowerCase d)"
    using effectivePriority_pos [of p "toLowerCase d"] by simp
  from scanPatterns_first_max [OF assms(2) assms(3) assms(4) this, of None]
  have "scanPatterns schemaPatterns (toLowerCase d) (None, -1)
          = (Some p, effectivePriority p (toLowerCase d))"
    by (simp add: assms(1))
  with nb show ?thesis by (simp add: generateSchemas_nonblank)
qed

lemma generateSchemas_no_match:
  assumes "\<forall>p\<in>set schemaPatterns. matchCount p (toLowerCase d) = 0"
  shows "generateSchemas d = getDefaultSchema ()"
proof (cases "trim d = []")
  case True
  then show ?thesis by (simp add: generateSchemas_def generateSchemas_blank)
next
  case False
  from assms have "scanPatterns schemaPatterns (toLowerCase d) (None, -1) = (None, -1)"
    by (intro scanPatterns_keep) simp
  with False show ?thesis by (simp add: generateSchemas_nonblank)
qed

lemma generateSchemas_some_match:
  assumes "p0 \<in> set schemaPatterns" and "0 < matchCount p0 (toLowerCase d)"
  shows "\<exists>xs p ys. schemaPatterns = xs @ p # ys \<and> generateSchemas d = generator p ()
           \<and> 0 < matchCount p (toLowerCase d)
           \<and> (\<forall>q\<in>set xs. 0 < matchCount q (toLowerCase d)
                 \<longrightarrow> effectivePriority q (toLowerCase d) < effectivePriority p (toLowerCase d))
           \<and> (\<forall>q\<in>set ys. 0 < matchCount q (toLowerCase d)
                 \<longrightarrow> effectivePriority q (toLowerCase d) \<le> effectivePriority p (toLowerCase d))"
proof -
  obtain b h where s: "scanPatterns schemaPatterns (toLowerCase d) (None, -1) = (b, h)"
    by force
  from assms blank_no_match [of d p0] have nb: "trim d \<noteq> []" by auto
  from scanPatterns_result [OF s] show ?thesis
  proof
    assume "b = None \<and> h = -1 \<and>
      (\<forall>q\<in>set schemaPatterns. 0 < matchCount q (toLowerCase d)
          \<longrightarrow> effectivePriority q (toLowerCase d) \<le> -1)"
    with assms have "effectivePriority p0 (toLowerCase d) \<le> -1" by blast
    with effectivePriority_pos [OF assms] show ?thesis by simp
  next
    assume "\<exists>xs p ys. schemaPatterns = xs @ p # ys \<and> b = Some p
        \<and> h = effectivePriority p (toLowerCase d)
        \<and> 0 < matchCount p (toLowerCase d) \<and> -1 < effectivePriority p (toLowerCase d)
        \<and> (\<forall>q\<in>set xs. 0 < matchCount q (toLowerCase d)
              \<longrightarrow> effectivePriority q (toLowerCase d) < effectivePriority p (toLowerCase d))
        \<and> (\<forall>q\<in>set ys. 0 < matchCount q (toLowerCase d)
              \<longrightarrow> effectivePriority q (toLowerCase d) \<le> effectivePriority p (toLowerCase d))"
    then obtain xs p ys where d: "schemaPatterns = xs @ p # ys" "b = Some p"
        "0 < matchCount p (toLowerCase d)"
        "\<forall>q\<in>set xs. 0 < matchCount q (toLowerCase d)
              \<longrightarrow> effectivePriority q (toLowerCase d) < effectivePriority p (toLowerCase d)"
        "\<forall>q\<in>set ys. 0 < matchCount q (toLowerCase d)
              \<longrightarrow> effectivePriority q (toLowerCase d) \<le> effectivePriority p (toLowerCase d)"
      by blast
    from nb s d(2) have "generateSchemas d = generator p ()"
      by (simp add: generateSchemas_nonblank)
    with d show ?thesis by blast
  qed
qed

text \<open>The result is always one of the eleven schema sets of the module.\<close>

lemma generateSchemas_cases:
  "generateSchemas d = getDefaultSchema ()
   \<or> (\<exists>p\<in>set schemaPatterns. generateSchemas d = generator p ())"
proof (cases "\<exists>p\<in>set schemaPatterns. 0 < matchCount p (toLowerCase d)")
  case True
  then obtain p0 where "p0 \<in> set schemaPatterns" "0 < matchCount p0 (toLowerCase d)" by blast
  from generateSchemas_some_match [OF this]
  obtain xs p ys where "schemaPatterns = xs @ p # ys" "generateSchemas d = generator p ()"
    by blast
  then have "p \<in> set schemaPatterns" "generateSchemas d = generator p ()"
    by (metis in_set_conv_decomp, simp)
  then show ?thesis by blast
next
  case False
  then have "\<forall>p\<in>set schemaPatterns. matchCount p (toLowerCase d) = 0" by simp
  then show ?thesis by (simp add: generateSchemas_no_match)
qed


section \<open>The worked example of the specification\<close>

text \<open>
  Claim C1, as the specification states it: for the description
  "I want to identify which company emails are fraudulent" the fraud entry wins with
  \<open>matchCount = 1\<close> and \<open>effectiveScore = 10\<close>. On the code this fails: the lower-cased
  description contains the keyword "fraud" as well as the keyword "fraudulent", so the
  count is not 1 and the score is not 10.
\<close>

theorem C1_fraud_matchCount_counterexample:
  "\<not> (matchCount fraudPattern
          (toLowerCase ''I want to identify which company emails are fraudulent'') = 1
      \<and> effectivePriority fraudPattern
          (toLowerCase ''I want to identify which company emails are fraudulent'') = 10)"
  by code_simp

text \<open>
  Claim C1, amended: for that description \<open>generateSchemas\<close> returns the result of the
  fraud entry's generator; the keywords of the fraud entry that occur are "fraud" and
  "fraudulent", so its \<open>matchCount\<close> is 2 and its score is 20; no other entry matches; the
  \<open>required\<close> array of the output schema is \<open>["is_fraudulent", "confidence"]\<close> and its
  \<open>properties.confidence\<close> has \<open>minimum = 0\<close> and \<open>maximum = 1\<close>.
\<close>

theorem C1_fraud_example:
  "generateSchemas ''I want to identify which company emails are fraudulent''
     = generator fraudPattern ()
   \<and> filter (includes_str (toLowerCase ''I want to identify which company emails are fraudulent''))
        (keywords fraudPattern) = [''fraud'', ''fraudulent'']
   \<and> map (\<lambda>pattern. matchCount pattern
             (toLowerCase ''I want to identify which company emails are fraudulent''))
        schemaPatterns = [2, 0, 0, 0, 0, 0, 0, 0, 0, 0]
   \<and> effectivePriority fraudPattern
        (toLowerCase ''I want to identify which company emails are fraudulent'') = 20
   \<and> requiredOf (output (generateSchemas ''I want to identify which company emails are fraudulent''))
        = [''is_fraudulent'', ''confidence'']
   \<and> getPath (output (generateSchemas ''I want to identify which company emails are fraudulent''))
        [''properties'', ''confidence'', ''minimum''] = Some (JNumber 0)
   \<and> getPath (output (generateSchemas ''I want to identify which company emails are fraudulent''))
        [''properties'', ''confidence'', ''maximum''] = Some (JNumber 1)"
  by code_simp

section \<open>One word, two keywords\<close>

lemma lower_fraudulent: "toLowerCase ''fraudulent'' = ''fraudulent''"
  by code_simp

lemma includes_fraud:
  assumes "includes_str ld ''fraudulent''"
  shows "includes_str ld ''fraud''"
proof -
  have "includes_str ld (''fraud'' @ ''ulent'')"
    using assms by simp
  then show ?thesis by (rule includes_str_part)
qed

text \<open>
  Claim C9: the keyword "fraud" is a substring of the keyword "fraudulent" of the same
  entry. So for every description that contains "fraudulent" (as it is written, or after
  lower-casing) the lower-cased description contains both keywords, the fraud entry's
  \<open>matchCount\<close> is at least 2 and its score is at least 20.
\<close>

theorem C9_fraudulent_matches_twice:
  assumes "includes_str problemDescription ''fraudulent''
           \<or> includes_str (toLowerCase problemDescription) ''fraudulent''"
  shows "includes_str (toLowerCase problemDescription) ''fraud''
       \<and> includes_str (toLowerCase problemDescription) ''fraudulent''
       \<and> 2 \<le> matchCount fraudPattern (toLowerCase problemDescription)
       \<and> 20 \<le> effectivePriority fraudPattern (toLowerCase problemDescription)"
proof -
  from assms have l: "includes_str (toLowerCase problemDescription) ''fraudulent''"
    using includes_str_toLowerCase [OF _ lower_fraudulent] by blast
  then have s: "includes_str (toLowerCase problemDescription) ''fraud''"
    by (rule includes_fraud)
  from l s have m: "2 \<le> matchCount fraudPattern (toLowerCase problemDescription)"
    by (simp add: matchCount_def fraudPattern_def)
  then have "20 \<le> effectivePriority fraudPattern (toLowerCase problemDescription)"
    by (simp add: effectivePriority_def fraudPattern_def)
  with l s m show ?thesis by simp
qed

theorem C9_fraudulent_matches_twice_witness:
  "(includes_str ''Is this FRAUDULENT?'' ''fraudulent''
      \<or> includes_str (toLowerCase ''Is this FRAUDULENT?'') ''fraudulent'')
   \<and> 2 \<le> matchCount fraudPattern (toLowerCase ''Is this FRAUDULENT?'')
   \<and> 20 \<le> effectivePriority fraudPattern (toLowerCase ''Is this FRAUDULENT?'')"
proof -
  have h: "includes_str ''Is this FRAUDULENT?'' ''fraudulent''
     \<or> includes_str (toLowerCase ''Is this FRAUDULENT?'') ''fraudulent''"
    by code_simp
  from C9_fraudulent_matches_twice [OF h] h show ?thesis by blast
qed


section \<open>A keyword shared by two entries\<close>

lemma price_not_predict: "generator pricePattern () \<noteq> generator predictPattern ()"
  by code_simp

lemma schemaPatterns_split_price:
  "schemaPatterns = [fraudPattern, churnPattern, sentimentPattern, classifyPattern]
      @ pricePattern # [recommendPattern, anomalyPattern, imagePattern, summarizePattern, predictPattern]"
  by (simp add: schemaPatterns_def)

text \<open>
  Claim C10: the keyword "estimate" belongs to the pricing entry (priority 9) and to the
  predict entry (priority 5). For every description whose lower-cased form contains
  "estimate" and no other keyword of the catalog, both entries match once, the pricing entry
  scores \<open>9 \<times> 1\<close> and the predict entry \<open>5 \<times> 1\<close>, and \<open>generateSchemas\<close> returns the pricing
  schema set, which is not the predict schema set.
\<close>

theorem C10_estimate_selects_pricing:
  assumes "includes_str (toLowerCase problemDescription) ''estimate''"
    and "\<forall>pattern\<in>set schemaPatterns. \<forall>keyword\<in>set (keywords pattern).
           keyword \<noteq> ''estimate'' \<longrightarrow> \<not> includes_str (toLowerCase problemDescription) keyword"
  shows "''estimate'' \<in> set (keywords pricePattern) \<and> ''estimate'' \<in> set (keywords predictPattern)
       \<and> effectivePriority pricePattern (toLowerCase problemDescription) = 9 * 1
       \<and> effectivePriority predictPattern (toLowerCase problemDescription) = 5 * 1
       \<and> generateSchemas problemDescription = generator pricePattern ()
       \<and> generateSchemas problemDescription \<noteq> generator predictPattern ()"
proof -
  let ?ld = "toLowerCase problemDescription"
  note none = assms(2) [unfolded schemaPatterns_def pattern_defs, simplified]
  have k: "''estimate'' \<in> set (keywords pricePattern)" "''estimate'' \<in> set (keywords predictPattern)"
    by (simp_all add: pattern_defs)
  have price: "matchCount pricePattern ?ld = 1"
    using assms(1) none by (simp add: matchCount_def pricePattern_def)
  have predict: "matchCount predictPattern ?ld = 1"
    using assms(1) none by (simp add: matchCount_def predictPattern_def)
  have before: "\<forall>q\<in>set [fraudPattern, churnPattern, sentimentPattern, classifyPattern].
                  matchCount q ?ld = 0"
    using none by (simp add: matchCount_def pattern_defs)
  have after: "\<forall>q\<in>set [recommendPattern, anomalyPattern, imagePattern, summarizePattern].
                  matchCount q ?ld = 0"
    using none by (simp add: matchCount_def pattern_defs)
  have e1: "effectivePriority pricePattern ?ld = 9"
    using price by (simp add: effectivePriority_def pricePattern_def)
  have e2: "effectivePriority predictPattern ?ld = 5"
    using predict by (simp add: effectivePriority_def predictPattern_def)
  have "generateSchemas problemDescription = generator pricePattern ()"
  proof (rule generateSchemas_first_max [OF schemaPatterns_split_price])
    show "0 < matchCount pricePattern ?ld" using price by simp
    show "\<forall>q\<in>set [fraudPattern, churnPattern, sentimentPattern, classifyPattern].
            0 < matchCount q ?ld \<longrightarrow> effectivePriority q ?ld < effectivePriority pricePattern ?ld"
      using before by simp
    show "\<forall>q\<in>set [recommendPattern, anomalyPattern, imagePattern, summarizePattern, predictPattern].
            0 < matchCount q ?ld \<longrightarrow> effectivePriority q ?ld \<le> effectivePriority pricePattern ?ld"
      using after e1 e2 by simp
  qed
  with k e1 e2 price_not_predict show ?thesis by simp
qed

theorem C10_estimate_selects_pricing_witness:
  "includes_str (toLowerCase ''Estimate the value'') ''estimate''
   \<and> filter (includes_str (toLowerCase ''Estimate the value'')) (concat (map keywords schemaPatterns))
       = [''estimate'', ''estimate'']
   \<and> generateSchemas ''Estimate the value'' = generator pricePattern ()
   \<and> generateSchemas ''Estimate the value'' \<noteq> generator predictPattern ()"
proof -
  have h1: "includes_str (toLowerCase ''Estimate the value'') ''estimate''"
    by code_simp
  have h2: "\<forall>pattern\<in>set schemaPatterns. \<forall>keyword\<in>set (keywords pattern).
           keyword \<noteq> ''estimate'' \<longrightarrow> \<not> includes_str (toLowerCase ''Estimate the value'') keyword"
    by code_simp
  have h3: "filter (includes_str (toLowerCase ''Estimate the value''))
              (concat (map keywords schemaPatterns)) = [''estimate'', ''estimate'']"
    by code_simp
  from C10_estimate_selects_pricing [OF h1 h2]
  have "generateSchemas ''Estimate the value'' = generator pricePattern ()"
    and "generateSchemas ''Estimate the value'' \<noteq> generator predictPattern ()"
    by blast+
  with h1 h3 show ?thesis by (intro conjI)
qed

section \<open>Scores and the choice of the winner\<close>


lemma catalog_keywords_distinct: "p \<in> set schemaPatterns \<Longrightarrow> distinct (keywords p)"
  by (auto simp: schemaPatterns_def pattern_defs)

lemma catalog_priority_le: "p \<in> set schemaPatterns \<Longrightarrow> priority p \<le> 10"
  by (auto simp: schemaPatterns_def pattern_defs)

lemma matchCount_card:
  "distinct (keywords p) \<Longrightarrow>
   matchCount p ld = card {keyword \<in> set (keywords p). includes_str ld keyword}"
proof -
  assume "distinct (keywords p)"
  then have "matchCount p ld = card ({k. includes_str ld k} \<inter> set (keywords p))"
    unfolding matchCount_def by (rule distinct_length_filter)
  also have "{k. includes_str ld k} \<inter> set (keywords p)
               = {keyword \<in> set (keywords p). includes_str ld keyword}"
    by blast
  finally show ?thesis .
qed

lemma winner_is_maximal:
  assumes "schemaPatterns = xs @ p # ys"
    and "0 < matchCount p ld"
    and "\<forall>q\<in>set xs. 0 < matchCount q ld \<longrightarrow> effectivePriority q ld < effectivePriority p ld"
    and "\<forall>q\<in>set ys. 0 < matchCount q ld \<longrightarrow> effectivePriority q ld \<le> effectivePriority p ld"
    and "q \<in> set schemaPatterns"
  shows "effectivePriority q ld \<le> effectivePriority p ld"
proof (cases "0 < matchCount q ld")
  case True
  from assms(5) have "q \<in> set xs \<or> q = p \<or> q \<in> set ys" by (auto simp: assms(1))
  with True assms(3) assms(4) show ?thesis by fastforce
next
  case False
  then have "effectivePriority q ld = 0" by (simp add: effectivePriority_zero)
  moreover have "p \<in> set schemaPatterns" by (simp add: assms(1))
  then have "0 < effectivePriority p ld" using assms(2) by (rule effectivePriority_pos)
  ultimately show ?thesis by simp
qed

lemma single_match_score:
  assumes "q \<in> set schemaPatterns" and "matchCount q ld \<le> 1"
  shows "effectivePriority q ld \<le> 10"
proof -
  from assms(2) have "matchCount q ld = 0 \<or> matchCount q ld = 1" by arith
  with catalog_priority_le [OF assms(1)] show ?thesis
    by (auto simp: effectivePriority_def)
qed

lemma schemaPatterns_split_churn:
  "schemaPatterns = [fraudPattern]
      @ churnPattern # [sentimentPattern, classifyPattern, pricePattern, recommendPattern,
                        anomalyPattern, imagePattern, summarizePattern, predictPattern]"
  by (simp add: schemaPatterns_def)

lemma others_not_churn:
  "q \<in> set [fraudPattern, sentimentPattern, classifyPattern, pricePattern, recommendPattern,
             anomalyPattern, imagePattern, summarizePattern, predictPattern] \<Longrightarrow> q \<noteq> churnPattern"
  by (auto simp: pattern_defs)

lemma others_in_catalog:
  "q \<in> set [fraudPattern, sentimentPattern, classifyPattern, pricePattern, recommendPattern,
             anomalyPattern, imagePattern, summarizePattern, predictPattern]
   \<Longrightarrow> q \<in> set schemaPatterns"
  by (auto simp: schemaPatterns_def)

text \<open>
  Claim C2: for every description, with \<open>lowerDescription\<close> its lower-cased form,
  \<^item> the \<open>matchCount\<close> of every catalog entry is the number of its keywords that occur in
    \<open>lowerDescription\<close> as a substring, each keyword counted once, and its score is
    \<open>priority \<times> matchCount\<close>;
  \<^item> when some entry matches, \<open>generateSchemas\<close> returns the generator result of a matching
    entry whose score is maximal over the catalog;
  \<^item> when "churn" and "cancel" occur and every other entry matches at most one keyword, the
    churn entry wins; its score is at least \<open>10 \<times> 2\<close>, and exactly that when these two are its
    only keywords that occur, while every other entry scores at most 10.
\<close>

theorem C2_scoring_and_selection:
  assumes "lowerDescription = toLowerCase problemDescription"
  shows "(\<forall>pattern\<in>set schemaPatterns.
            matchCount pattern lowerDescription
              = card {keyword \<in> set (keywords pattern). includes_str lowerDescription keyword}
          \<and> effectivePriority pattern lowerDescription
              = priority pattern * int (matchCount pattern lowerDescription))
       \<and> ((\<exists>pattern\<in>set schemaPatterns. 0 < matchCount pattern lowerDescription) \<longrightarrow>
            (\<exists>winner\<in>set schemaPatterns.
               generateSchemas problemDescription = generator winner ()
               \<and> 0 < matchCount winner lowerDescription
               \<and> (\<forall>pattern\<in>set schemaPatterns.
                     effectivePriority pattern lowerDescription
                       \<le> effectivePriority winner lowerDescription)))
       \<and> (includes_str lowerDescription ''churn'' \<and> includes_str lowerDescription ''cancel''
            \<and> (\<forall>pattern\<in>set schemaPatterns.
                  pattern \<noteq> churnPattern \<longrightarrow> matchCount pattern lowerDescription \<le> 1) \<longrightarrow>
            generateSchemas problemDescription = generator churnPattern ()
            \<and> 10 * 2 \<le> effectivePriority churnPattern lowerDescription
            \<and> (matchCount churnPattern lowerDescription = 2 \<longrightarrow>
                 effectivePriority churnPattern lowerDescription = 10 * 2)
            \<and> (\<forall>pattern\<in>set schemaPatterns.
                  pattern \<noteq> churnPattern \<longrightarrow> effectivePriority pattern lowerDescription \<le> 10))"
proof (intro conjI ballI impI)
  fix pattern assume "pattern \<in> set schemaPatterns"
  then show "matchCount pattern lowerDescription
              = card {keyword \<in> set (keywords pattern). includes_str lowerDescription keyword}"
    by (intro matchCount_card catalog_keywords_distinct)
next
  fix pattern
  show "effectivePriority pattern lowerDescription
              = priority pattern * int (matchCount pattern lowerDescription)"
    by (simp add: effectivePriority_def)
next
  assume "\<exists>pattern\<in>set schemaPatterns. 0 < matchCount pattern lowerDescription"
  then obtain p0 where "p0 \<in> set schemaPatterns" "0 < matchCount p0 (toLowerCase problemDescription)"
    unfolding assms by blast
  from generateSchemas_some_match [OF this]
  obtain xs p ys where d: "schemaPatterns = xs @ p # ys"
      "generateSchemas problemDescription = generator p ()"
      "0 < matchCount p lowerDescription"
      "\<forall>q\<in>set xs. 0 < matchCount q lowerDescription
            \<longrightarrow> effectivePriority q lowerDescription < effectivePriority p lowerDescription"
      "\<forall>q\<in>set ys. 0 < matchCount q lowerDescription
            \<longrightarrow> effectivePriority q lowerDescription \<le> effectivePriority p lowerDescription"
    unfolding assms by blast
  have "p \<in> set schemaPatterns" by (simp add: d(1))
  moreover have "\<forall>pattern\<in>set schemaPatterns.
      effectivePriority pattern lowerDescription \<le> effectivePriority p lowerDescription"
    using winner_is_maximal [OF d(1) d(3) d(4) d(5)] by blast
  ultimately show "\<exists>winner\<in>set schemaPatterns.
               generateSchemas problemDescription = generator winner ()
               \<and> 0 < matchCount winner lowerDescription
               \<and> (\<forall>pattern\<in>set schemaPatterns.
                     effectivePriority pattern lowerDescription
                       \<le> effectivePriority winner lowerDescription)"
    using d(2) d(3) by blast
next
  assume h: "includes_str lowerDescription ''churn'' \<and> includes_str lowerDescription ''cancel''
            \<and> (\<forall>pattern\<in>set schemaPatterns.
                  pattern \<noteq> churnPattern \<longrightarrow> matchCount pattern lowerDescription \<le> 1)"
  then have m: "2 \<le> matchCount churnPattern lowerDescription"
    by (simp add: matchCount_def churnPattern_def)
  then have e: "20 \<le> effectivePriority churnPattern lowerDescription"
    by (simp add: effectivePriority_def churnPattern_def)
  have o: "effectivePriority q lowerDescription \<le> 10"
    if "q \<in> set schemaPatterns" "q \<noteq> churnPattern" for q
    using that h by (intro single_match_score) simp_all
  have "generateSchemas problemDescription = generator churnPattern ()"
  proof (rule generateSchemas_first_max [OF schemaPatterns_split_churn])
    show "0 < matchCount churnPattern (toLowerCase problemDescription)"
      using m unfolding assms by simp
    show "\<forall>q\<in>set [fraudPattern]. 0 < matchCount q (toLowerCase problemDescription) \<longrightarrow>
            effectivePriority q (toLowerCase problemDescription)
              < effectivePriority churnPattern (toLowerCase problemDescription)"
      using o [of fraudPattern] others_not_churn [of fraudPattern]
        others_in_catalog [of fraudPattern] e
      unfolding assms by simp
    show "\<forall>q\<in>set [sentimentPattern, classifyPattern, pricePattern, recommendPattern,
                   anomalyPattern, imagePattern, summarizePattern, predictPattern].
            0 < matchCount q (toLowerCase problemDescription) \<longrightarrow>
            effectivePriority q (toLowerCase problemDescription)
              \<le> effectivePriority churnPattern (toLowerCase problemDescription)"
    proof (intro ballI impI)
      fix q assume q: "q \<in> set [sentimentPattern, classifyPattern, pricePattern, recommendPattern,
                   anomalyPattern, imagePattern, summarizePattern, predictPattern]"
      then have "q \<in> set schemaPatterns" "q \<noteq> churnPattern"
        using others_not_churn [of q] others_in_catalog [of q] by simp_all
      from o [OF this] e
      show "effectivePriority q (toLowerCase problemDescription)
              \<le> effectivePriority churnPattern (toLowerCase problemDescription)"
        unfolding assms by simp
    qed
  qed
  then show "generateSchemas problemDescription = generator churnPattern ()" .
  show "10 * 2 \<le> effectivePriority churnPattern lowerDescription" using e by simp
  show "effectivePriority churnPattern lowerDescription = 10 * 2"
    if "matchCount churnPattern lowerDescription = 2"
    using that by (simp add: effectivePriority_def churnPattern_def)
  show "effectivePriority pattern lowerDescription \<le> 10"
    if "pattern \<in> set schemaPatterns" "pattern \<noteq> churnPattern" for pattern
    using that by (rule o)
qed

theorem C2_scoring_and_selection_witness:
  "includes_str (toLowerCase ''Churn: who will CANCEL? (no scam)'') ''churn''
   \<and> includes_str (toLowerCase ''Churn: who will CANCEL? (no scam)'') ''cancel''
   \<and> map (\<lambda>pattern. matchCount pattern (toLowerCase ''Churn: who will CANCEL? (no scam)''))
         schemaPatterns = [1, 2, 0, 0, 0, 0, 0, 0, 0, 0]
   \<and> map (\<lambda>pattern. effectivePriority pattern (toLowerCase ''Churn: who will CANCEL? (no scam)''))
         schemaPatterns = [10, 20, 0, 0, 0, 0, 0, 0, 0, 0]
   \<and> generateSchemas ''Churn: who will CANCEL? (no scam)'' = generator churnPattern ()
   \<and> effectivePriority churnPattern (toLowerCase ''Churn: who will CANCEL? (no scam)'') = 10 * 2"
proof -
  have h: "includes_str (toLowerCase ''Churn: who will CANCEL? (no scam)'') ''churn''
      \<and> includes_str (toLowerCase ''Churn: who will CANCEL? (no scam)'') ''cancel''
      \<and> (\<forall>pattern\<in>set schemaPatterns.
            pattern \<noteq> churnPattern \<longrightarrow>
            matchCount pattern (toLowerCase ''Churn: who will CANCEL? (no scam)'') \<le> 1)"
    by code_simp
  have m: "map (\<lambda>pattern. matchCount pattern (toLowerCase ''Churn: who will CANCEL? (no scam)''))
         schemaPatterns = [1, 2, 0, 0, 0, 0, 0, 0, 0, 0]"
    "map (\<lambda>pattern. effectivePriority pattern (toLowerCase ''Churn: who will CANCEL? (no scam)''))
         schemaPatterns = [10, 20, 0, 0, 0, 0, 0, 0, 0, 0]"
    "matchCount churnPattern (toLowerCase ''Churn: who will CANCEL? (no scam)'') = 2"
    by code_simp+
  from C2_scoring_and_selection [OF refl, of "''Churn: who will CANCEL? (no scam)''"] h m(3)
  have "generateSchemas ''Churn: who will CANCEL? (no scam)'' = generator churnPattern ()"
    and "effectivePriority churnPattern (toLowerCase ''Churn: who will CANCEL? (no scam)'') = 10 * 2"
    by blast+
  with h m(1) m(2) show ?thesis by (intro conjI) blast+
qed


section \<open>Ties and the order of the table\<close>

text \<open>
  Claim C3, as the specification states it: the table is declared in the order fraud,
  churn, sentiment, price, classify, recommend, anomaly, image, summarize, predict. The
  source declares the classify entry fourth and the price entry fifth.
\<close>

theorem C3_declaration_order_counterexample:
  "catalogOrder \<noteq> specCatalog
   \<and> catalogOrder ! 3 = ([''classify'', ''classification'', ''categorize'', ''category'', ''label'', ''tag''], 8)
   \<and> specCatalog ! 3 = ([''price'', ''pricing'', ''cost'', ''estimate'', ''valuation'', ''worth''], 9)"
  by code_simp

lemma ties_split:
  assumes "i < length ps"
    and "\<forall>q\<in>set ps. f q \<le> f (ps ! i)"
    and "\<forall>j<i. f (ps ! j) < f (ps ! i)"
  shows "ps = take i ps @ (ps ! i) # drop (Suc i) ps
    \<and> (\<forall>q\<in>set (take i ps). g q \<longrightarrow> (f q :: int) < f (ps ! i))
    \<and> (\<forall>q\<in>set (drop (Suc i) ps). g q \<longrightarrow> f q \<le> f (ps ! i))"
proof (intro conjI)
  show "ps = take i ps @ (ps ! i) # drop (Suc i) ps"
    using assms(1) by (simp add: id_take_nth_drop [symmetric])
  show "\<forall>q\<in>set (take i ps). g q \<longrightarrow> f q < f (ps ! i)"
  proof (intro ballI impI)
    fix q assume "q \<in> set (take i ps)"
    then obtain j where "j < length (take i ps)" "q = take i ps ! j"
      by (auto simp: in_set_conv_nth)
    with assms(1) have "j < i" "q = ps ! j" by simp_all
    with assms(3) show "f q < f (ps ! i)" by simp
  qed
  show "\<forall>q\<in>set (drop (Suc i) ps). g q \<longrightarrow> f q \<le> f (ps ! i)"
    using assms(2) by (auto dest: in_set_dropD)
qed

text \<open>
  Claim C3, amended: when an entry matches, its score is maximal over the table and every
  entry declared before it scores less, \<open>generateSchemas\<close> returns its generator's result;
  so among entries with the same maximal score the one declared first wins. The table
  holds the keyword sets and priorities of section 4.1, declared in the order fraud, churn,
  sentiment, classify, price, recommend, anomaly, image, summarize, predict: the order of
  section 4.1 with its fourth and fifth entries exchanged.
\<close>

theorem C3_first_declared_wins:
  "(i < length schemaPatterns
      \<and> 0 < matchCount (schemaPatterns ! i) (toLowerCase problemDescription)
      \<and> (\<forall>pattern\<in>set schemaPatterns.
            effectivePriority pattern (toLowerCase problemDescription)
              \<le> effectivePriority (schemaPatterns ! i) (toLowerCase problemDescription))
      \<and> (\<forall>j<i. effectivePriority (schemaPatterns ! j) (toLowerCase problemDescription)
                  < effectivePriority (schemaPatterns ! i) (toLowerCase problemDescription))
     \<longrightarrow> generateSchemas problemDescription = generator (schemaPatterns ! i) ())
   \<and> catalogOrder =
       [([''fraud'', ''fraudulent'', ''scam'', ''spam'', ''phishing'', ''fake''], 10),
        ([''churn'', ''retention'', ''attrition'', ''cancel'', ''unsubscribe''], 10),
        ([''sentiment'', ''emotion'', ''feeling'', ''opinion'', ''review''], 9),
        ([''classify'', ''classification'', ''categorize'', ''category'', ''label'', ''tag''], 8),
        ([''price'', ''pricing'', ''cost'', ''estimate'', ''valuation'', ''worth''], 9),
        ([''recommend'', ''recommendation'', ''suggest'', ''personalize''], 8),
        ([''anomaly'', ''outlier'', ''abnormal'', ''unusual'', ''detect''], 8),
        ([''image'', ''photo'', ''picture'', ''visual'', ''recognize''], 7),
        ([''summarize'', ''summary'', ''extract'', ''abstract'', ''tldr''], 7),
        ([''predict'', ''forecast'', ''estimate''], 5)]
   \<and> catalogOrder = specCatalog[3 := specCatalog ! 4, 4 := specCatalog ! 3]"
proof (intro conjI impI)
  assume h: "i < length schemaPatterns
      \<and> 0 < matchCount (schemaPatterns ! i) (toLowerCase problemDescription)
      \<and> (\<forall>pattern\<in>set schemaPatterns.
            effectivePriority pattern (toLowerCase problemDescription)
              \<le> effectivePriority (schemaPatterns ! i) (toLowerCase problemDescription))
      \<and> (\<forall>j<i. effectivePriority (schemaPatterns ! j) (toLowerCase problemDescription)
                  < effectivePriority (schemaPatterns ! i) (toLowerCase problemDescription))"
  then have i: "i < length schemaPatterns"
    and m: "0 < matchCount (schemaPatterns ! i) (toLowerCase problemDescription)"
    and a: "\<forall>pattern\<in>set schemaPatterns.
            effectivePriority pattern (toLowerCase problemDescription)
              \<le> effectivePriority (schemaPatterns ! i) (toLowerCase problemDescription)"
    and b: "\<forall>j<i. effectivePriority (schemaPatterns ! j) (toLowerCase problemDescription)
                  < effectivePriority (schemaPatterns ! i) (toLowerCase problemDescription)"
    by blast+
  note s = ties_split [of i schemaPatterns "\<lambda>q. effectivePriority q (toLowerCase problemDescription)"
      "\<lambda>q. 0 < matchCount q (toLowerCase problemDescription)", OF i a b]
  show "generateSchemas problemDescription = generator (schemaPatterns ! i) ()"
    by (rule generateSchemas_first_max
          [OF s [THEN conjunct1] m s [THEN conjunct2, THEN conjunct1]
              s [THEN conjunct2, THEN conjunct2]])
next
  show "catalogOrder =
       [([''fraud'', ''fraudulent'', ''scam'', ''spam'', ''phishing'', ''fake''], 10),
        ([''churn'', ''retention'', ''attrition'', ''cancel'', ''unsubscribe''], 10),
        ([''sentiment'', ''emotion'', ''feeling'', ''opinion'', ''review''], 9),
        ([''classify'', ''classification'', ''categorize'', ''category'', ''label'', ''tag''], 8),
        ([''price'', ''pricing'', ''cost'', ''estimate'', ''valuation'', ''worth''], 9),
        ([''recommend'', ''recommendation'', ''suggest'', ''personalize''], 8),
        ([''anomaly'', ''outlier'', ''abnormal'', ''unusual'', ''detect''], 8),
        ([''image'', ''photo'', ''picture'', ''visual'', ''recognize''], 7),
        ([''summarize'', ''summary'', ''extract'', ''abstract'', ''tldr''], 7),
        ([''predict'', ''forecast'', ''estimate''], 5)]"
    by (simp add: catalogOrder_def schemaPatterns_def pattern_defs)
next
  show "catalogOrder = specCatalog[3 := specCatalog ! 4, 4 := specCatalog ! 3]"
    by code_simp
qed

theorem C3_first_declared_wins_witness:
  "effectivePriority (schemaPatterns ! 0) (toLowerCase ''A scam, or churn?'') = 10
   \<and> effectivePriority (schemaPatterns ! 1) (toLowerCase ''A scam, or churn?'') = 10
   \<and> generateSchemas ''A scam, or churn?'' = generator (schemaPatterns ! 0) ()
   \<and> generator (schemaPatterns ! 0) () = fraudSchemas ()"
proof -
  have e: "effectivePriority (schemaPatterns ! 0) (toLowerCase ''A scam, or churn?'') = 10"
    "effectivePriority (schemaPatterns ! 1) (toLowerCase ''A scam, or churn?'') = 10"
    "generator (schemaPatterns ! 0) () = fraudSchemas ()"
    by code_simp+
  have h: "0 < length schemaPatterns
      \<and> 0 < matchCount (schemaPatterns ! 0) (toLowerCase ''A scam, or churn?'')
      \<and> (\<forall>pattern\<in>set schemaPatterns.
            effectivePriority pattern (toLowerCase ''A scam, or churn?'')
              \<le> effectivePriority (schemaPatterns ! 0) (toLowerCase ''A scam, or churn?''))"
    by code_simp
  then have "0 < length schemaPatterns
      \<and> 0 < matchCount (schemaPatterns ! 0) (toLowerCase ''A scam, or churn?'')
      \<and> (\<forall>pattern\<in>set schemaPatterns.
            effectivePriority pattern (toLowerCase ''A scam, or churn?'')
              \<le> effectivePriority (schemaPatterns ! 0) (toLowerCase ''A scam, or churn?''))
      \<and> (\<forall>j<0. effectivePriority (schemaPatterns ! j) (toLowerCase ''A scam, or churn?'')
                  < effectivePriority (schemaPatterns ! 0) (toLowerCase ''A scam, or churn?''))"
    by blast
  with C3_first_declared_wins [of 0 "''A scam, or churn?''"] e show ?thesis by blast
qed


section \<open>The order of the classify and the price entry is not observable\<close>

lemma matchCount_le: "matchCount p ld \<le> length (keywords p)"
  by (simp add: matchCount_def)

lemma classify_price_no_tie:
  assumes "0 < matchCount classifyPattern ld" and "0 < matchCount pricePattern ld"
  shows "effectivePriority classifyPattern ld \<noteq> effectivePriority pricePattern ld"
proof -
  have "matchCount classifyPattern ld \<le> 6" "matchCount pricePattern ld \<le> 6"
    using matchCount_le [of classifyPattern ld] matchCount_le [of pricePattern ld]
    by (simp_all add: classifyPattern_def pricePattern_def)
  with assms have "8 * int (matchCount classifyPattern ld) \<noteq> 9 * int (matchCount pricePattern ld)"
    by presburger
  then show ?thesis by (simp add: effectivePriority_def classifyPattern_def pricePattern_def)
qed

lemma scanPatterns_swap:
  assumes "0 < matchCount p ld \<Longrightarrow> 0 < matchCount q ld \<Longrightarrow>
           effectivePriority p ld \<noteq> effectivePriority q ld"
  shows "scanPatterns (xs @ p # q # ys) ld (b, h) = scanPatterns (xs @ q # p # ys) ld (b, h)"
proof -
  have "scanPatterns (p # q # ys) ld (b', h') = scanPatterns (q # p # ys) ld (b', h')" for b' h'
    using assms by auto
  then show ?thesis
    by (cases "scanPatterns xs ld (b, h)") (simp add: scanPatterns_append)
qed

text \<open>
  With the table in the order of section 4.1 of the specification, price before classify,
  \<open>generateSchemas\<close> would return the same schema set for every description: the two entries
  never reach the same score.
\<close>

lemma specification_order_same_results:
  "generateSchemasFrom
     [fraudPattern, churnPattern, sentimentPattern, pricePattern, classifyPattern,
      recommendPattern, anomalyPattern, imagePattern, summarizePattern, predictPattern]
     problemDescription
   = generateSchemas problemDescription"
proof -
  let ?ld = "toLowerCase problemDescription"
  let ?ys = "[recommendPattern, anomalyPattern, imagePattern, summarizePattern, predictPattern]"
  have "scanPatterns ([fraudPattern, churnPattern, sentimentPattern]
                        @ pricePattern # classifyPattern # ?ys) ?ld (None, -1)
      = scanPatterns ([fraudPattern, churnPattern, sentimentPattern]
                        @ classifyPattern # pricePattern # ?ys) ?ld (None, -1)"
    by (rule scanPatterns_swap) (use classify_price_no_tie [of ?ld] in simp)
  then show ?thesis
    by (simp add: generateSchemas_def generateSchemasFrom_def schemaPatterns_def)
qed


section \<open>The default schema\<close>

lemma generators_not_default:
  "\<forall>pattern\<in>set schemaPatterns. generator pattern () \<noteq> getDefaultSchema ()"
  by code_simp

lemma default_shape:
  "map (\<lambda>entry. (fst entry, getProp (snd entry) ''type'')) (propertiesOf (input (getDefaultSchema ())))
     = [(''data'', Some (JString ''object'')), (''features'', Some (JString ''object'')),
        (''metadata'', Some (JString ''object''))]"
  "requiredOf (input (getDefaultSchema ())) = [''data'']"
  "map (\<lambda>entry. (fst entry, getProp (snd entry) ''type'')) (propertiesOf (output (getDefaultSchema ())))
     = [(''prediction'', Some (JString ''string'')), (''confidence'', Some (JString ''number'')),
        (''metadata'', Some (JString ''object''))]"
  "requiredOf (output (getDefaultSchema ())) = [''prediction'']"
  "getPath (output (getDefaultSchema ())) [''properties'', ''confidence'', ''minimum''] = Some (JNumber 0)"
  "getPath (output (getDefaultSchema ())) [''properties'', ''confidence'', ''maximum''] = Some (JNumber 1)"
  by code_simp+

text \<open>
  Claim C4: \<open>generateSchemas\<close> returns the default schema exactly when the trimmed
  description is empty or the description is not blank and its lower-cased form contains no
  keyword of the catalog. For a blank description the result is the default schema whatever
  the table holds: the table is not consulted. The default schema has the input properties
  \<open>data\<close>, \<open>features\<close>, \<open>metadata\<close> (objects) with \<open>required = ["data"]\<close>, and the output
  properties \<open>prediction\<close> (string), \<open>confidence\<close> (number, minimum 0, maximum 1), \<open>metadata\<close>
  (object) with \<open>required = ["prediction"]\<close>.
\<close>

theorem C4_default_schema_cases:
  "(generateSchemas problemDescription = getDefaultSchema ()
      \<longleftrightarrow> trim problemDescription = []
          \<or> (trim problemDescription \<noteq> []
              \<and> (\<forall>pattern\<in>set schemaPatterns. \<forall>keyword\<in>set (keywords pattern).
                    \<not> includes_str (toLowerCase problemDescription) keyword)))
   \<and> (trim problemDescription = [] \<longrightarrow>
        (\<forall>patterns. generateSchemasFrom patterns problemDescription = getDefaultSchema ()))
   \<and> map (\<lambda>entry. (fst entry, getProp (snd entry) ''type''))
        (propertiesOf (input (getDefaultSchema ())))
       = [(''data'', Some (JString ''object'')), (''features'', Some (JString ''object'')),
          (''metadata'', Some (JString ''object''))]
   \<and> requiredOf (input (getDefaultSchema ())) = [''data'']
   \<and> map (\<lambda>entry. (fst entry, getProp (snd entry) ''type''))
        (propertiesOf (output (getDefaultSchema ())))
       = [(''prediction'', Some (JString ''string'')), (''confidence'', Some (JString ''number'')),
          (''metadata'', Some (JString ''object''))]
   \<and> requiredOf (output (getDefaultSchema ())) = [''prediction'']
   \<and> getPath (output (getDefaultSchema ())) [''properties'', ''confidence'', ''minimum'']
       = Some (JNumber 0)
   \<and> getPath (output (getDefaultSchema ())) [''properties'', ''confidence'', ''maximum'']
       = Some (JNumber 1)"
proof -
  have iff: "generateSchemas problemDescription = getDefaultSchema ()
      \<longleftrightarrow> trim problemDescription = []
          \<or> (trim problemDescription \<noteq> []
              \<and> (\<forall>pattern\<in>set schemaPatterns. \<forall>keyword\<in>set (keywords pattern).
                    \<not> includes_str (toLowerCase problemDescription) keyword))"
  proof (cases "\<exists>p\<in>set schemaPatterns. 0 < matchCount p (toLowerCase problemDescription)")
    case True
    then obtain p0 where p0: "p0 \<in> set schemaPatterns"
        "0 < matchCount p0 (toLowerCase problemDescription)" by blast
    from generateSchemas_some_match [OF this]
    obtain xs p ys where "schemaPatterns = xs @ p # ys"
        "generateSchemas problemDescription = generator p ()" by blast
    then have "p \<in> set schemaPatterns" "generateSchemas problemDescription = generator p ()"
      by (metis in_set_conv_decomp, simp)
    with generators_not_default
    have l: "generateSchemas problemDescription \<noteq> getDefaultSchema ()" by simp
    from p0 blank_no_match [of problemDescription p0]
    have r1: "trim problemDescription \<noteq> []" by auto
    from p0 have r2: "\<not> (\<forall>pattern\<in>set schemaPatterns. \<forall>keyword\<in>set (keywords pattern).
                    \<not> includes_str (toLowerCase problemDescription) keyword)"
      by (auto simp: matchCount_pos_iff)
    from l r1 r2 show ?thesis by blast
  next
    case False
    then have z: "\<forall>p\<in>set schemaPatterns. matchCount p (toLowerCase problemDescription) = 0"
      by simp
    then have l: "generateSchemas problemDescription = getDefaultSchema ()"
      by (rule generateSchemas_no_match)
    from z have "\<forall>pattern\<in>set schemaPatterns. \<forall>keyword\<in>set (keywords pattern).
                    \<not> includes_str (toLowerCase problemDescription) keyword"
      by (simp add: matchCount_zero_iff)
    with l show ?thesis by blast
  qed
  have blank: "trim problemDescription = [] \<longrightarrow>
        (\<forall>patterns. generateSchemasFrom patterns problemDescription = getDefaultSchema ())"
    by (simp add: generateSchemas_blank)
  from iff blank default_shape show ?thesis by (intro conjI)
qed

theorem C4_default_schema_cases_witness:
  "trim [CHR '' '', CHR 0x09, CHR 0x0A] = []
   \<and> generateSchemas [CHR '' '', CHR 0x09, CHR 0x0A] = getDefaultSchema ()
   \<and> generateSchemasFrom [] [CHR '' '', CHR 0x09, CHR 0x0A] = getDefaultSchema ()
   \<and> trim ''Hello, World'' \<noteq> []
   \<and> generateSchemas ''Hello, World'' = getDefaultSchema ()
   \<and> generateSchemas ''Spam or not'' \<noteq> getDefaultSchema ()"
proof -
  have b: "trim [CHR '' '', CHR 0x09, CHR 0x0A] = []" by code_simp
  have n: "trim ''Hello, World'' \<noteq> []
           \<and> (\<forall>pattern\<in>set schemaPatterns. \<forall>keyword\<in>set (keywords pattern).
                    \<not> includes_str (toLowerCase ''Hello, World'') keyword)"
    by code_simp
  have s: "\<not> (trim ''Spam or not'' = []
          \<or> (trim ''Spam or not'' \<noteq> []
              \<and> (\<forall>pattern\<in>set schemaPatterns. \<forall>keyword\<in>set (keywords pattern).
                    \<not> includes_str (toLowerCase ''Spam or not'') keyword)))"
    by code_simp
  from C4_default_schema_cases [of "[CHR '' '', CHR 0x09, CHR 0x0A]"] b
  have 1: "generateSchemas [CHR '' '', CHR 0x09, CHR 0x0A] = getDefaultSchema ()"
    and 2: "generateSchemasFrom [] [CHR '' '', CHR 0x09, CHR 0x0A] = getDefaultSchema ()"
    by blast+
  from C4_default_schema_cases [of "''Hello, World''"] n
  have 3: "generateSchemas ''Hello, World'' = getDefaultSchema ()" by blast
  from C4_default_schema_cases [of "''Spam or not''"] s
  have 4: "generateSchemas ''Spam or not'' \<noteq> getDefaultSchema ()" by blast
  from b n 1 2 3 4 show ?thesis by blast
qed


section \<open>The invariants of the schema objects\<close>

lemma requiredDeclared_iff:
  "requiredDeclared schema \<longleftrightarrow>
     (\<forall>name\<in>set (requiredOf schema). name \<in> fst ` set (propertiesOf schema))"
  by (simp add: requiredDeclared_def list_all_iff)

lemma fieldBoundsOrdered_both:
  assumes "fieldBoundsOrdered field"
    and "getProp field ''minimum'' = Some lo" and "getProp field ''maximum'' = Some hi"
  shows "\<exists>a b. lo = JNumber a \<and> hi = JNumber b \<and> a \<le> b"
  using assms by (cases lo; cases hi) (simp_all add: fieldBoundsOrdered_def)

lemma boundsOrdered_both:
  assumes "boundsOrdered schema" and "(name, field) \<in> set (propertiesOf schema)"
    and "getProp field ''minimum'' = Some lo" and "getProp field ''maximum'' = Some hi"
  shows "\<exists>a b. lo = JNumber a \<and> hi = JNumber b \<and> a \<le> b"
proof -
  from assms(1) assms(2) have "fieldBoundsOrdered field"
    by (auto simp: boundsOrdered_def list_all_iff)
  then show ?thesis using assms(3) assms(4) by (rule fieldBoundsOrdered_both)
qed

lemma default_invariants:
  "schemaShaped (input (getDefaultSchema ())) \<and> schemaShaped (output (getDefaultSchema ()))
   \<and> requiredDeclared (input (getDefaultSchema ())) \<and> boundsOrdered (input (getDefaultSchema ()))
   \<and> requiredDeclared (output (getDefaultSchema ())) \<and> boundsOrdered (output (getDefaultSchema ()))"
  by code_simp

lemma catalog_invariants:
  "\<forall>pattern\<in>set schemaPatterns.
     schemaShaped (input (generator pattern ())) \<and> schemaShaped (output (generator pattern ()))
   \<and> requiredDeclared (input (generator pattern ())) \<and> boundsOrdered (input (generator pattern ()))
   \<and> requiredDeclared (output (generator pattern ())) \<and> boundsOrdered (output (generator pattern ()))"
  by code_simp

lemma generateSchemas_invariants:
  "schemaShaped (input (generateSchemas d)) \<and> schemaShaped (output (generateSchemas d))
   \<and> requiredDeclared (input (generateSchemas d)) \<and> boundsOrdered (input (generateSchemas d))
   \<and> requiredDeclared (output (generateSchemas d)) \<and> boundsOrdered (output (generateSchemas d))"
  using generateSchemas_cases [of d] default_invariants catalog_invariants by metis

text \<open>
  Claim C8: for every description, each of the two schema objects that \<open>generateSchemas\<close>
  returns has an object as \<open>properties\<close> and an array of strings as \<open>required\<close>; every name
  in \<open>required\<close> is a key of \<open>properties\<close>; and a field that carries both a \<open>minimum\<close> and a
  \<open>maximum\<close> carries two numbers with \<open>minimum \<le> maximum\<close>.
\<close>

theorem C8_schema_invariants:
  assumes "schema = input (generateSchemas problemDescription)
           \<or> schema = output (generateSchemas problemDescription)"
  shows "getProp schema ''properties'' = Some (JObject (propertiesOf schema))
       \<and> getProp schema ''required'' = Some (JArray (map JString (requiredOf schema)))
       \<and> (\<forall>name\<in>set (requiredOf schema). name \<in> fst ` set (propertiesOf schema))
       \<and> (\<forall>(name, field)\<in>set (propertiesOf schema). \<forall>lo hi.
             getProp field ''minimum'' = Some lo \<and> getProp field ''maximum'' = Some hi
             \<longrightarrow> (\<exists>a b. lo = JNumber a \<and> hi = JNumber b \<and> a \<le> b))"
proof -
  from assms generateSchemas_invariants [of problemDescription]
  have s: "schemaShaped schema" and r: "requiredDeclared schema" and b: "boundsOrdered schema"
    by blast+
  from s have "getProp schema ''properties'' = Some (JObject (propertiesOf schema))"
    and "getProp schema ''required'' = Some (JArray (map JString (requiredOf schema)))"
    by (simp_all add: schemaShaped_def)
  moreover from r have "\<forall>name\<in>set (requiredOf schema). name \<in> fst ` set (propertiesOf schema)"
    by (simp add: requiredDeclared_iff)
  moreover have "\<forall>(name, field)\<in>set (propertiesOf schema). \<forall>lo hi.
             getProp field ''minimum'' = Some lo \<and> getProp field ''maximum'' = Some hi
             \<longrightarrow> (\<exists>a b. lo = JNumber a \<and> hi = JNumber b \<and> a \<le> b)"
    using boundsOrdered_both [OF b] by blast
  ultimately show ?thesis by (intro conjI)
qed

theorem C8_schema_invariants_witness:
  "requiredOf (input (generateSchemas ''customer churn'')) = [''customer_id'', ''days_active'']
   \<and> ''customer_id'' \<in> fst ` set (propertiesOf (input (generateSchemas ''customer churn'')))
   \<and> ''days_active'' \<in> fst ` set (propertiesOf (input (generateSchemas ''customer churn'')))
   \<and> (''engagement_score'',
        JObject [(''type'', JString ''number''), (''description'', JString ''Engagement metric''),
                 (''minimum'', JNumber 0), (''maximum'', JNumber 100)])
       \<in> set (propertiesOf (input (generateSchemas ''customer churn'')))
   \<and> (\<exists>a b. JNumber 0 = JNumber a \<and> JNumber 100 = JNumber b \<and> a \<le> b)"
proof -
  let ?field = "JObject [(''type'', JString ''number''), (''description'', JString ''Engagement metric''),
                 (''minimum'', JNumber 0), (''maximum'', JNumber 100)]"
  have r: "requiredOf (input (generateSchemas ''customer churn'')) = [''customer_id'', ''days_active'']"
    by code_simp
  have p: "(''engagement_score'', ?field)
             \<in> set (propertiesOf (input (generateSchemas ''customer churn'')))"
    by code_simp
  have g: "getProp ?field ''minimum'' = Some (JNumber 0)" "getProp ?field ''maximum'' = Some (JNumber 100)"
    by simp_all
  note t = C8_schema_invariants [of "input (generateSchemas ''customer churn'')" "''customer churn''",
      OF disjI1, OF refl]
  from t have "\<forall>name\<in>set (requiredOf (input (generateSchemas ''customer churn''))).
      name \<in> fst ` set (propertiesOf (input (generateSchemas ''customer churn'')))"
    by (elim conjE)
  then have m: "''customer_id'' \<in> fst ` set (propertiesOf (input (generateSchemas ''customer churn'')))"
    "''days_active'' \<in> fst ` set (propertiesOf (input (generateSchemas ''customer churn'')))"
    unfolding r by simp_all
  from t have "\<forall>(name, field)\<in>set (propertiesOf (input (generateSchemas ''customer churn''))). \<forall>lo hi.
             getProp field ''minimum'' = Some lo \<and> getProp field ''maximum'' = Some hi
             \<longrightarrow> (\<exists>a b. lo = JNumber a \<and> hi = JNumber b \<and> a \<le> b)"
    by (elim conjE)
  with p g have "\<exists>a b. JNumber 0 = JNumber a \<and> JNumber 100 = JNumber b \<and> a \<le> b"
    by blast
  with r p m show ?thesis by (intro conjI)
qed


section \<open>The validator\<close>

lemma blank_iff: "(s = [] \<or> trim s = []) \<longleftrightarrow> trim s = []"
  by (auto simp: trim_Nil)

lemma nonblank_nonempty: "trim s \<noteq> [] \<Longrightarrow> s \<noteq> []"
  by (auto simp: trim_Nil)

lemma validateSchema_blank:
  "trim s = [] \<Longrightarrow>
   validateSchema s = Inr \<lparr>valid = True, error = None, parsed = Some (JObject [])\<rparr>"
  by (simp add: validateSchema_def blank_iff)

lemma validateSchema_throw:
  "trim s \<noteq> [] \<Longrightarrow> JSON_parse s = Inl e \<Longrightarrow>
   validateSchema s =
     Inr \<lparr>valid = False,
          error = Some (case e of ErrorInstance message \<Rightarrow> message
                        | OtherValue _ \<Rightarrow> ''Invalid JSON syntax''),
          parsed = None\<rparr>"
  by (simp add: validateSchema_def nonblank_nonempty tryCatch_def)

lemma validateSchema_object:
  "trim s \<noteq> [] \<Longrightarrow> JSON_parse s = Inr (JObject members) \<Longrightarrow>
   validateSchema s = Inr \<lparr>valid = True, error = None, parsed = Some (JObject members)\<rparr>"
  by (simp add: validateSchema_def nonblank_nonempty tryCatch_def)

lemma validateSchema_not_object:
  "trim s \<noteq> [] \<Longrightarrow> JSON_parse s = Inr v \<Longrightarrow> \<forall>members. v \<noteq> JObject members \<Longrightarrow>
   validateSchema s =
     Inr \<lparr>valid = False,
          error = Some ''Schema must be a JSON object, not an array or primitive value'',
          parsed = None\<rparr>"
  by (cases v) (simp_all add: validateSchema_def nonblank_nonempty tryCatch_def)

lemma JSON_parse_throws:
  "JSON_parse s = Inl e \<Longrightarrow> e = ErrorInstance syntaxErrorMessage"
  by (auto simp: JSON_parse_def split: option.splits)

lemma syntaxErrorMessage_not_empty: "syntaxErrorMessage \<noteq> []"
  by (simp add: syntaxErrorMessage_def)

text \<open>
  Claim C5: for every input string \<open>validateSchema\<close> returns
  \<^item> \<open>{valid: true, parsed: {}}\<close> when the string is empty or holds white space only;
  \<^item> otherwise, when \<open>JSON.parse\<close> throws, \<open>{valid: false, error}\<close> where \<open>error\<close> is the message
    of the thrown error, which is not empty;
  \<^item> when \<open>JSON.parse\<close> returns a value that is not an object (null, a boolean, a number, a
    string or an array), \<open>{valid: false, error}\<close> with the fixed message;
  \<^item> when \<open>JSON.parse\<close> returns an object, \<open>{valid: true, parsed}\<close> with that object;
  and in every result \<open>error\<close> is present exactly when \<open>valid\<close> is false and \<open>parsed\<close> is
  present exactly when \<open>valid\<close> is true.
\<close>

theorem C5_validateSchema_cases:
  "(trim schemaString = [] \<longrightarrow>
      validateSchema schemaString
        = Inr \<lparr>valid = True, error = None, parsed = Some (JObject [])\<rparr>)
   \<and> (trim schemaString \<noteq> [] \<longrightarrow>
        (\<forall>e. JSON_parse schemaString = Inl e \<longrightarrow>
           (\<exists>message. message \<noteq> [] \<and> e = ErrorInstance message
              \<and> validateSchema schemaString
                   = Inr \<lparr>valid = False, error = Some message, parsed = None\<rparr>))
        \<and> (\<forall>v. JSON_parse schemaString = Inr v \<longrightarrow>
             (if \<exists>members. v = JObject members
              then validateSchema schemaString
                     = Inr \<lparr>valid = True, error = None, parsed = Some v\<rparr>
              else validateSchema schemaString
                     = Inr \<lparr>valid = False,
                            error = Some ''Schema must be a JSON object, not an array or primitive value'',
                            parsed = None\<rparr>)))
   \<and> (\<exists>result. validateSchema schemaString = Inr result
          \<and> (error result \<noteq> None \<longleftrightarrow> \<not> valid result)
          \<and> (parsed result \<noteq> None \<longleftrightarrow> valid result))"
proof -
  have blank: "trim schemaString = [] \<longrightarrow>
      validateSchema schemaString
        = Inr \<lparr>valid = True, error = None, parsed = Some (JObject [])\<rparr>"
    by (simp add: validateSchema_blank)
  have throws: "\<exists>message. message \<noteq> [] \<and> e = ErrorInstance message
              \<and> validateSchema schemaString
                   = Inr \<lparr>valid = False, error = Some message, parsed = None\<rparr>"
    if "trim schemaString \<noteq> []" "JSON_parse schemaString = Inl e" for e
    using validateSchema_throw [OF that] JSON_parse_throws [OF that(2)]
      syntaxErrorMessage_not_empty by simp
  have returns: "if \<exists>members. v = JObject members
              then validateSchema schemaString
                     = Inr \<lparr>valid = True, error = None, parsed = Some v\<rparr>
              else validateSchema schemaString
                     = Inr \<lparr>valid = False,
                            error = Some ''Schema must be a JSON object, not an array or primitive value'',
                            parsed = None\<rparr>"
    if "trim schemaString \<noteq> []" "JSON_parse schemaString = Inr v" for v
    using validateSchema_object [OF that(1)] validateSchema_not_object [OF that] that(2)
    by auto
  have shape: "\<exists>result. validateSchema schemaString = Inr result
          \<and> (error result \<noteq> None \<longleftrightarrow> \<not> valid result)
          \<and> (parsed result \<noteq> None \<longleftrightarrow> valid result)"
  proof (cases "trim schemaString = []")
    case True
    then show ?thesis by (simp add: validateSchema_blank)
  next
    case False
    show ?thesis
    proof (cases "JSON_parse schemaString")
      case (Inl e)
      from throws [OF False Inl] show ?thesis by auto
    next
      case (Inr v)
      from returns [OF False Inr] show ?thesis by (auto split: if_splits)
    qed
  qed
  from blank throws returns shape show ?thesis by blast
qed

theorem C5_validateSchema_cases_witness:
  \<open>validateSchema [] = Inr \<lparr>valid = True, error = None, parsed = Some (JObject [])\<rparr>
   \<and> validateSchema [CHR '' '', CHR 0x0A] = Inr \<lparr>valid = True, error = None, parsed = Some (JObject [])\<rparr>
   \<and> JSON_parse ''{"a":1}'' = Inr (JObject [(''a'', JNumber 1)])
   \<and> validateSchema ''{"a":1}''
       = Inr \<lparr>valid = True, error = None, parsed = Some (JObject [(''a'', JNumber 1)])\<rparr>
   \<and> JSON_parse ''[1,2,3]'' = Inr (JArray [JNumber 1, JNumber 2, JNumber 3])
   \<and> validateSchema ''[1,2,3]''
       = Inr \<lparr>valid = False,
              error = Some ''Schema must be a JSON object, not an array or primitive value'',
              parsed = None\<rparr>
   \<and> (\<exists>message. message \<noteq> []
          \<and> JSON_parse ''{"a":1,}'' = Inl (ErrorInstance message)
          \<and> validateSchema ''{"a":1,}''
               = Inr \<lparr>valid = False, error = Some message, parsed = None\<rparr>)\<close>
proof -
  have b: "trim [] = []" "trim [CHR '' '', CHR 0x0A] = []"
    by code_simp+
  have n: \<open>trim ''{"a":1}'' \<noteq> []\<close> \<open>trim ''[1,2,3]'' \<noteq> []\<close> \<open>trim ''{"a":1,}'' \<noteq> []\<close>
    by code_simp+
  have p: \<open>JSON_parse ''{"a":1}'' = Inr (JObject [(''a'', JNumber 1)])\<close>
    \<open>JSON_parse ''[1,2,3]'' = Inr (JArray [JNumber 1, JNumber 2, JNumber 3])\<close>
    \<open>JSON_parse ''{"a":1,}'' = Inl (ErrorInstance syntaxErrorMessage)\<close>
    by code_simp+
  from C5_validateSchema_cases [of "[]"] b(1)
  have 1: "validateSchema [] = Inr \<lparr>valid = True, error = None, parsed = Some (JObject [])\<rparr>"
    by blast
  from C5_validateSchema_cases [of "[CHR '' '', CHR 0x0A]"] b(2)
  have 2: "validateSchema [CHR '' '', CHR 0x0A]
             = Inr \<lparr>valid = True, error = None, parsed = Some (JObject [])\<rparr>"
    by blast
  from C5_validateSchema_cases [of \<open>''{"a":1}''\<close>] n(1) p(1)
  have 3: \<open>validateSchema ''{"a":1}''
       = Inr \<lparr>valid = True, error = None, parsed = Some (JObject [(''a'', JNumber 1)])\<rparr>\<close>
    by auto
  from C5_validateSchema_cases [of \<open>''[1,2,3]''\<close>] n(2) p(2)
  have 4: \<open>validateSchema ''[1,2,3]''
       = Inr \<lparr>valid = False,
              error = Some ''Schema must be a JSON object, not an array or primitive value'',
              parsed = None\<rparr>\<close>
    by auto
  from C5_validateSchema_cases [of \<open>''{"a":1,}''\<close>] n(3) p(3)
  have 5: \<open>\<exists>message. message \<noteq> []
          \<and> JSON_parse ''{"a":1,}'' = Inl (ErrorInstance message)
          \<and> validateSchema ''{"a":1,}''
               = Inr \<lparr>valid = False, error = Some message, parsed = None\<rparr>\<close>
    by auto
  from 1 2 3 4 5 p(1) p(2) show ?thesis by (intro conjI)
qed

text \<open>
  Claim C6: \<open>validateSchema\<close> returns for every input string and nothing is thrown out of
  it: the only call that can throw is \<open>JSON.parse\<close>, it stands inside the \<open>try\<close> block, and the
  \<open>catch\<close> clause turns whatever was thrown into a returned \<open>{valid: false, error}\<close>.
\<close>

theorem C6_validateSchema_never_throws:
  "(\<exists>result. validateSchema schemaString = Inr result)
   \<and> (\<forall>thrown. validateSchema schemaString \<noteq> Inl thrown)
   \<and> (\<forall>e. trim schemaString \<noteq> [] \<and> JSON_parse schemaString = Inl e \<longrightarrow>
          (\<exists>message. validateSchema schemaString
                        = Inr \<lparr>valid = False, error = Some message, parsed = None\<rparr>))"
proof -
  have r: "\<exists>result. validateSchema schemaString = Inr result"
    by (cases "JSON_parse schemaString")
       (simp_all add: validateSchema_def tryCatch_def)
  then have "\<forall>thrown. validateSchema schemaString \<noteq> Inl thrown" by auto
  moreover have "\<forall>e. trim schemaString \<noteq> [] \<and> JSON_parse schemaString = Inl e \<longrightarrow>
          (\<exists>message. validateSchema schemaString
                        = Inr \<lparr>valid = False, error = Some message, parsed = None\<rparr>)"
    by (auto simp: validateSchema_throw)
  ultimately show ?thesis using r by blast
qed

theorem C6_validateSchema_never_throws_witness:
  \<open>trim ''{"type": "object"'' \<noteq> []
   \<and> JSON_parse ''{"type": "object"'' = Inl (ErrorInstance syntaxErrorMessage)
   \<and> (\<exists>message. validateSchema ''{"type": "object"''
                     = Inr \<lparr>valid = False, error = Some message, parsed = None\<rparr>)\<close>
proof -
  have h: \<open>trim ''{"type": "object"'' \<noteq> []
           \<and> JSON_parse ''{"type": "object"'' = Inl (ErrorInstance syntaxErrorMessage)\<close>
    by code_simp
  with C6_validateSchema_never_throws [of \<open>''{"type": "object"''\<close>] show ?thesis by blast
qed

section \<open>Scanning what \<open>JSON.stringify\<close> writes\<close>


lemma hexVal_hexDigit: "d < 16 \<Longrightarrow> hexVal (hexDigit d) = Some d"
  by (auto simp: hexVal_def hexDigit_def Let_def)

lemma map_option_append_Nil [simp]: "map_option ((@) []) x = x"
  by (cases x) simp_all

lemma map_option_append_single [simp]: "map_option ((@) [t]) x = map_option ((#) t) x"
  by (cases x) simp_all

lemma scan_Cons: 
  "scan mode (c # cs) =
     (case scanStep mode c of
        None \<Rightarrow> None
      | Some (ts, mode') \<Rightarrow> map_option (\<lambda>rest. ts @ rest) (scan mode' cs))"
  by (cases mode) simp_all

lemma scan_quoteChar:
  "scan (InString acc) (quoteChar c @ rest) = scan (InString (c # acc)) rest"
proof -
  let ?n = "of_char c :: nat"
  have n: "?n < 256" by simp
  consider "c = CHR 0x08" | "c = CHR 0x09" | "c = CHR 0x0A" | "c = CHR 0x0C" | "c = CHR 0x0D"
    | "c = CHR 0x22" | "c = CHR 0x5C"
    | "c \<noteq> CHR 0x08" "c \<noteq> CHR 0x09" "c \<noteq> CHR 0x0A" "c \<noteq> CHR 0x0C" "c \<noteq> CHR 0x0D"
      "c \<noteq> CHR 0x22" "c \<noteq> CHR 0x5C" "?n < 32"
    | "c \<noteq> CHR 0x08" "c \<noteq> CHR 0x09" "c \<noteq> CHR 0x0A" "c \<noteq> CHR 0x0C" "c \<noteq> CHR 0x0D"
      "c \<noteq> CHR 0x22" "c \<noteq> CHR 0x5C" "\<not> ?n < 32"
    by blast
  then show ?thesis
  proof cases
    case 8
    have d: "?n div 16 < 16" "?n mod 16 < 16" using 8(8) by simp_all
    have q: "quoteChar c = [CHR 0x5C, CHR ''u'', CHR ''0'', CHR ''0'',
                            hexDigit (?n div 16), hexDigit (?n mod 16)]"
      using 8 by (simp add: quoteChar_def Let_def)
    have z: "hexVal CHR ''0'' = Some 0" by (simp add: hexVal_def)
    have "char_of (16 * (?n div 16) + ?n mod 16) = c" by simp
    then show ?thesis
      unfolding q
      by (simp add: scan_Cons hexVal_hexDigit [OF d(1)] hexVal_hexDigit [OF d(2)] z)
  next
    case 9
    then show ?thesis by (simp add: quoteChar_def Let_def scan_Cons)
  qed (simp_all add: quoteChar_def Let_def scan_Cons unescape_def)
qed

lemma scan_string_body:
  "scan (InString acc) (concat (map quoteChar s) @ CHR 0x22 # rest)
     = map_option (Cons (StringTok (rev acc @ s))) (scan Idle rest)"
proof (induction s arbitrary: acc)
  case Nil
  show ?case by (simp add: scan_Cons)
next
  case (Cons c s)
  have "scan (InString acc) (concat (map quoteChar (c # s)) @ CHR 0x22 # rest)
          = scan (InString acc) (quoteChar c @ (concat (map quoteChar s) @ CHR 0x22 # rest))"
    by simp
  also have "\<dots> = scan (InString (c # acc)) (concat (map quoteChar s) @ CHR 0x22 # rest)"
    by (rule scan_quoteChar)
  also have "\<dots> = map_option (Cons (StringTok (rev (c # acc) @ s))) (scan Idle rest)"
    by (rule Cons.IH)
  finally show ?case by simp
qed

lemma scan_quoted:
  "scan Idle (quoteJSONString s @ rest) = map_option (Cons (StringTok s)) (scan Idle rest)"
proof -
  have "scan Idle (quoteJSONString s @ rest)
          = scan (InString []) (concat (map quoteChar s) @ CHR 0x22 # rest)"
    by (simp add: quoteJSONString_def scan_Cons scanIdle_def isJsonSpace_def)
  then show ?thesis by (simp add: scan_string_body)
qed

subsection \<open>Numbers\<close>

lemma digitChar_props:
  assumes "d < 10"
  shows "isDigit (digitChar d)" and "digitVal (digitChar d) = d"
    and "digitChar d = CHR ''0'' \<longleftrightarrow> d = 0"
proof -
  have o: "of_char (digitChar d) = 48 + d"
    using assms by (simp add: digitChar_def)
  show "isDigit (digitChar d)" using assms by (simp add: isDigit_def o)
  show "digitVal (digitChar d) = d" by (simp add: digitVal_def o)
  have "digitChar d = CHR ''0'' \<longleftrightarrow> (of_char (digitChar d) :: nat) = of_char CHR ''0''"
    by (simp only: of_char_eq_iff)
  then show "digitChar d = CHR ''0'' \<longleftrightarrow> d = 0" by (simp add: o)
qed

lemma showNat_small: "n < 10 \<Longrightarrow> showNat n = [digitChar n]"
  by (simp add: showNat.simps)

lemma showNat_big: "\<not> n < 10 \<Longrightarrow> showNat n = showNat (n div 10) @ [digitChar (n mod 10)]"
  by (subst showNat.simps) simp

lemma showNat_nonempty: "showNat n \<noteq> []"
  by (cases "n < 10") (simp_all add: showNat_small showNat_big)

lemma showNat_digits: "\<forall>c\<in>set (showNat n). isDigit c"
proof (induction n rule: showNat.induct)
  case (1 n)
  show ?case
  proof (cases "n < 10")
    case True
    then show ?thesis by (simp add: showNat_small digitChar_props)
  next
    case False
    have "n mod 10 < 10" by simp
    then have "isDigit (digitChar (n mod 10))" by (rule digitChar_props)
    with False 1 show ?thesis by (simp add: showNat_big)
  qed
qed

lemma digitsVal_Nil: "digitsVal [] = 0"
  by (simp add: digitsVal_def)

lemma digitsVal_snoc: "digitsVal (ds @ [c]) = 10 * digitsVal ds + digitVal c"
  by (simp add: digitsVal_def)

lemma digitsVal_showNat: "digitsVal (showNat n) = n"
proof (induction n rule: showNat.induct)
  case (1 n)
  show ?case
  proof (cases "n < 10")
    case True
    then show ?thesis by (simp add: showNat_small digitsVal_def digitChar_props)
  next
    case False
    have "n mod 10 < 10" by simp
    then have "digitVal (digitChar (n mod 10)) = n mod 10" by (rule digitChar_props)
    with False 1 show ?thesis by (simp add: showNat_big digitsVal_snoc)
  qed
qed

lemma showNat_hd: "0 < n \<Longrightarrow> hd (showNat n) \<noteq> CHR ''0''"
proof (induction n rule: showNat.induct)
  case (1 n)
  show ?case
  proof (cases "n < 10")
    case True
    with 1(2) show ?thesis by (simp add: showNat_small digitChar_props)
  next
    case False
    then have "0 < n div 10" by simp
    with False 1(1) have "hd (showNat (n div 10)) \<noteq> CHR ''0''" by simp
    with False show ?thesis by (simp add: showNat_big showNat_nonempty)
  qed
qed

lemma showNat_no_leading_zero: "\<not> (1 < length (showNat n) \<and> hd (showNat n) = CHR ''0'')"
proof (cases "n < 10")
  case True
  then show ?thesis by (simp add: showNat_small)
next
  case False
  then have "0 < n" by simp
  then show ?thesis using showNat_hd by blast
qed

lemma isDigit_not_minus: "isDigit c \<Longrightarrow> c \<noteq> CHR ''-''"
  by (auto simp: isDigit_def)

lemma numberLiteral_showNat:
  "numberLiteral (showNat n) = Some (of_nat n)"
proof -
  have d: "\<forall>c\<in>set (showNat n). isDigit c" by (rule showNat_digits)
  have t: "takeWhile isDigit (showNat n) = showNat n" "dropWhile isDigit (showNat n) = []"
    using d by (simp_all add: takeWhile_eq_all_conv dropWhile_eq_Nil_conv)
  obtain c cs where s: "showNat n = c # cs" using showNat_nonempty [of n] by (cases "showNat n") auto
  with d have "c \<noteq> CHR ''-''" by (simp add: isDigit_not_minus)
  then have neg: "(case showNat n of [] \<Rightarrow> False | c # _ \<Rightarrow> c = CHR ''-'') = False"
    by (simp add: s)
  show ?thesis
    unfolding numberLiteral_def neg Let_def
    using showNat_no_leading_zero [of n]
    by (simp add: t showNat_nonempty exponentPart_def digitsVal_showNat digitsVal_Nil)
qed

lemma numberLiteral_minus_showNat:
  "numberLiteral (CHR ''-'' # showNat n) = Some (- of_nat n)"
proof -
  have d: "\<forall>c\<in>set (showNat n). isDigit c" by (rule showNat_digits)
  have t: "takeWhile isDigit (showNat n) = showNat n" "dropWhile isDigit (showNat n) = []"
    using d by (simp_all add: takeWhile_eq_all_conv dropWhile_eq_Nil_conv)
  show ?thesis
    unfolding numberLiteral_def Let_def
    using showNat_no_leading_zero [of n]
    by (simp add: t showNat_nonempty exponentPart_def digitsVal_showNat digitsVal_Nil)
qed

lemma numberToString_integer:
  assumes "of_int \<lfloor>q\<rfloor> = q"
  shows "numberToString q = (if q < 0 then ''-'' else []) @ showNat (nat \<lfloor>\<bar>q\<bar>\<rfloor>)"
    and "of_nat (nat \<lfloor>\<bar>q\<bar>\<rfloor>) = \<bar>q\<bar>"
proof -
  from assms obtain i :: int where q: "q = of_int i" by metis
  have a: "\<bar>q\<bar> = of_int \<bar>i\<bar>" unfolding q by (rule of_int_abs [symmetric])
  have f: "\<lfloor>\<bar>q\<bar>\<rfloor> = \<bar>i\<bar>" unfolding a by (rule floor_of_int)
  have "of_nat (nat \<lfloor>\<bar>q\<bar>\<rfloor>) = (of_nat (nat \<bar>i\<bar>) :: rat)" by (simp only: f)
  also have "\<dots> = of_int \<bar>i\<bar>" by simp
  also have "\<dots> = \<bar>q\<bar>" by (simp only: a)
  finally show w: "of_nat (nat \<lfloor>\<bar>q\<bar>\<rfloor>) = \<bar>q\<bar>" .
  have r: "\<bar>q\<bar> - of_nat (nat \<lfloor>\<bar>q\<bar>\<rfloor>) = 0" unfolding w by simp
  show "numberToString q = (if q < 0 then ''-'' else []) @ showNat (nat \<lfloor>\<bar>q\<bar>\<rfloor>)"
    unfolding numberToString_def Let_def r by simp
qed

lemma numberLiteral_numberToString:
  assumes "of_int \<lfloor>q\<rfloor> = q"
  shows "numberLiteral (numberToString q) = Some q"
proof (cases "q < 0")
  case True
  then have "numberToString q = CHR ''-'' # showNat (nat \<lfloor>\<bar>q\<bar>\<rfloor>)"
    using numberToString_integer(1) [OF assms] by simp
  then have "numberLiteral (numberToString q) = Some (- of_nat (nat \<lfloor>\<bar>q\<bar>\<rfloor>))"
    by (simp only: numberLiteral_minus_showNat)
  also have "- (of_nat (nat \<lfloor>\<bar>q\<bar>\<rfloor>) :: rat) = q"
    unfolding numberToString_integer(2) [OF assms] using True by simp
  finally show ?thesis .
next
  case False
  then have "numberToString q = showNat (nat \<lfloor>\<bar>q\<bar>\<rfloor>)"
    using numberToString_integer(1) [OF assms] by simp
  then have "numberLiteral (numberToString q) = Some (of_nat (nat \<lfloor>\<bar>q\<bar>\<rfloor>))"
    by (simp only: numberLiteral_showNat)
  also have "(of_nat (nat \<lfloor>\<bar>q\<bar>\<rfloor>) :: rat) = q"
    unfolding numberToString_integer(2) [OF assms] using False by simp
  finally show ?thesis .
qed

subsection \<open>Literals, white space and punctuation\<close>

lemma map_option_append_append [simp]:
  "map_option ((@) a) (map_option ((@) b) x) = map_option ((@) (a @ b)) x"
  by (cases x) simp_all

lemma map_option_append_Cons [simp]:
  "map_option ((@) a) (map_option ((#) t) x) = map_option ((@) (a @ [t])) x"
  by (cases x) simp_all

lemma map_option_Cons_append [simp]:
  "map_option ((#) t) (map_option ((@) a) x) = map_option ((@) (t # a)) x"
  by (cases x) simp_all

lemma word_not_space: "isWordChar c \<Longrightarrow> \<not> isJsonSpace c"
proof
  assume w: "isWordChar c" and "isJsonSpace c"
  then have "(of_char c :: nat) \<in> {9, 10, 13, 32}" by (simp add: isJsonSpace_def)
  then have n: "(of_char c :: nat) \<le> 32" by auto
  then have "c \<noteq> CHR ''+''" "c \<noteq> CHR ''-''" "c \<noteq> CHR ''.''" by auto
  with w n show False by (simp add: isWordChar_def Let_def)
qed

lemma not_word_chars:
  "\<not> isWordChar CHR ''{''" "\<not> isWordChar CHR ''}''" "\<not> isWordChar CHR ''[''"
  "\<not> isWordChar CHR '']''" "\<not> isWordChar CHR '':''" "\<not> isWordChar CHR '',''"
  "\<not> isWordChar CHR 0x22" "\<not> isWordChar CHR 0x0A"
  by (simp_all add: isWordChar_def)

lemma scanIdle_word:
  assumes "isWordChar c"
  shows "scanIdle c = Some ([], InWord [c])"
proof -
  from assms not_word_chars
  have "c \<noteq> CHR ''{''" "c \<noteq> CHR ''}''" "c \<noteq> CHR ''[''" "c \<noteq> CHR '']''"
    "c \<noteq> CHR '':''" "c \<noteq> CHR '',''" "c \<noteq> CHR 0x22"
    by blast+
  with assms word_not_space [OF assms] show ?thesis
    by (simp add: scanIdle_def)
qed

lemma scan_word_chars:
  "\<forall>c\<in>set xs. isWordChar c \<Longrightarrow> scan (InWord w) (xs @ rest) = scan (InWord (rev xs @ w)) rest"
  by (induction xs arbitrary: w) (simp_all add: scan_Cons)

lemma scan_word_end:
  assumes "wordEnds rest"
  shows "scan (InWord w) rest
           = (case wordToken (rev w) of
                None \<Rightarrow> None
              | Some t \<Rightarrow> map_option ((#) t) (scan Idle rest))"
proof (cases rest)
  case Nil
  then show ?thesis by (simp split: option.splits)
next
  case (Cons c cs)
  with assms have "\<not> isWordChar c" by (simp add: wordEnds_def)
  then show ?thesis
    unfolding Cons
    by (cases "scanIdle c") (auto simp: scan_Cons split: option.splits)
qed

lemma scan_word:
  assumes "xs \<noteq> []" and "\<forall>c\<in>set xs. isWordChar c" and "wordEnds rest"
    and "wordToken xs = Some t"
  shows "scan Idle (xs @ rest) = map_option ((#) t) (scan Idle rest)"
proof -
  from assms(1) obtain c cs where x: "xs = c # cs" by (cases xs) auto
  with assms(2) have c: "isWordChar c" and cs: "\<forall>d\<in>set cs. isWordChar d" by simp_all
  have "scan Idle (xs @ rest) = scan (InWord [c]) (cs @ rest)"
    by (simp add: x scan_Cons scanIdle_word [OF c])
  also have "\<dots> = scan (InWord (rev xs)) rest"
    by (simp add: scan_word_chars [OF cs] x)
  also have "\<dots> = map_option ((#) t) (scan Idle rest)"
    by (simp add: scan_word_end [OF assms(3)] assms(4))
  finally show ?thesis .
qed

lemma isDigit_isWordChar: "isDigit c \<Longrightarrow> isWordChar c"
  by (simp add: isDigit_def isWordChar_def)

lemma numberToString_word:
  assumes "of_int \<lfloor>q\<rfloor> = q"
  shows "numberToString q \<noteq> []" and "\<forall>c\<in>set (numberToString q). isWordChar c"
    and "wordToken (numberToString q) = Some (AtomTok (JNumber q))"
proof -
  let ?ds = "showNat (nat \<lfloor>\<bar>q\<bar>\<rfloor>)"
  have t: "numberToString q = (if q < 0 then ''-'' else []) @ ?ds"
    by (rule numberToString_integer(1) [OF assms])
  show "numberToString q \<noteq> []" by (simp add: t showNat_nonempty)
  have m: "isWordChar CHR ''-''" by (simp add: isWordChar_def)
  show "\<forall>c\<in>set (numberToString q). isWordChar c"
    using showNat_digits [of "nat \<lfloor>\<bar>q\<bar>\<rfloor>"] m by (auto simp: t isDigit_isWordChar)
  obtain d ds where ds: "?ds = d # ds" using showNat_nonempty [of "nat \<lfloor>\<bar>q\<bar>\<rfloor>"]
    by (cases ?ds) auto
  with showNat_digits [of "nat \<lfloor>\<bar>q\<bar>\<rfloor>"] have "isDigit d" by simp
  then have "d \<noteq> CHR ''n''" "d \<noteq> CHR ''t''" "d \<noteq> CHR ''f''"
    by (auto simp: isDigit_def)
  then have "numberToString q \<noteq> ''null''" "numberToString q \<noteq> ''true''"
    "numberToString q \<noteq> ''false''"
    by (auto simp: t ds)
  then show "wordToken (numberToString q) = Some (AtomTok (JNumber q))"
    by (simp add: wordToken_def numberLiteral_numberToString [OF assms])
qed

lemma scan_atom:
  assumes "wordEnds rest"
  shows "scan Idle (''null'' @ rest) = map_option ((#) (AtomTok JNull)) (scan Idle rest)"
    and "scan Idle (''true'' @ rest) = map_option ((#) (AtomTok (JBool True))) (scan Idle rest)"
    and "scan Idle (''false'' @ rest) = map_option ((#) (AtomTok (JBool False))) (scan Idle rest)"
    and "of_int \<lfloor>q\<rfloor> = q \<Longrightarrow>
         scan Idle (numberToString q @ rest) = map_option ((#) (AtomTok (JNumber q))) (scan Idle rest)"
proof -
  show "scan Idle (''null'' @ rest) = map_option ((#) (AtomTok JNull)) (scan Idle rest)"
    by (rule scan_word [OF _ _ assms]) (simp_all add: isWordChar_def wordToken_def)
  show "scan Idle (''true'' @ rest) = map_option ((#) (AtomTok (JBool True))) (scan Idle rest)"
    by (rule scan_word [OF _ _ assms]) (simp_all add: isWordChar_def wordToken_def)
  show "scan Idle (''false'' @ rest) = map_option ((#) (AtomTok (JBool False))) (scan Idle rest)"
    by (rule scan_word [OF _ _ assms]) (simp_all add: isWordChar_def wordToken_def)
  show "scan Idle (numberToString q @ rest) = map_option ((#) (AtomTok (JNumber q))) (scan Idle rest)"
    if "of_int \<lfloor>q\<rfloor> = q"
    by (rule scan_word [OF numberToString_word(1) [OF that] numberToString_word(2) [OF that]
          assms numberToString_word(3) [OF that]])
qed

lemma scan_space:
  "\<forall>c\<in>set ws. isJsonSpace c \<Longrightarrow> scan Idle (ws @ rest) = scan Idle rest"
  by (induction ws) (simp_all add: scan_Cons scanIdle_def)

lemma scan_punctuation:
  "scan Idle (CHR ''['' # rest) = map_option ((#) LBracket) (scan Idle rest)"
  "scan Idle (CHR '']'' # rest) = map_option ((#) RBracket) (scan Idle rest)"
  "scan Idle (CHR ''{'' # rest) = map_option ((#) LBrace) (scan Idle rest)"
  "scan Idle (CHR ''}'' # rest) = map_option ((#) RBrace) (scan Idle rest)"
  "scan Idle (CHR '':'' # rest) = map_option ((#) Colon) (scan Idle rest)"
  "scan Idle (CHR '','' # rest) = map_option ((#) Comma) (scan Idle rest)"
  "scan Idle (CHR 0x0A # rest) = scan Idle rest"
  "scan Idle (CHR '' '' # rest) = scan Idle rest"
  by (simp_all add: scan_Cons scanIdle_def isJsonSpace_def)

lemma wordEnds_simps:
  "wordEnds []" "wordEnds (CHR '','' # rest)" "wordEnds (CHR 0x0A # rest)"
  by (simp_all add: wordEnds_def not_word_chars)

subsection \<open>Values\<close>

lemma joinWith_Cons: "xs \<noteq> [] \<Longrightarrow> joinWith sep (x # xs) = x @ sep @ joinWith sep xs"
  by (cases xs) simp_all

lemma scan_joinWith:
  assumes elem: "\<And>x r. x \<in> set xs \<Longrightarrow> wordEnds r \<Longrightarrow>
                   scan Idle (f x @ r) = map_option ((@) (g x)) (scan Idle r)"
    and sep: "\<And>r. scan Idle (sep @ r) = map_option ((#) Comma) (scan Idle r)"
    and ends: "\<And>r. wordEnds (sep @ r)"
    and "xs \<noteq> []" and "wordEnds rest"
  shows "scan Idle (joinWith sep (map f xs) @ rest)
           = map_option ((@) (joinWith [Comma] (map g xs))) (scan Idle rest)"
  using assms(1) assms(4)
proof (induction xs)
  case Nil
  then show ?case by simp
next
  case (Cons x xs)
  show ?case
  proof (cases "xs = []")
    case True
    then show ?thesis using Cons.prems(1) [of x rest] assms(5) by simp
  next
    case False
    have ih: "scan Idle (joinWith sep (map f xs) @ rest)
           = map_option ((@) (joinWith [Comma] (map g xs))) (scan Idle rest)"
      using Cons.prems(1) False by (intro Cons.IH) simp_all
    from False have j: "joinWith sep (map f (x # xs)) = f x @ sep @ joinWith sep (map f xs)"
      "joinWith [Comma] (map g (x # xs)) = g x @ [Comma] @ joinWith [Comma] (map g xs)"
      by (simp_all add: joinWith_Cons)
    have "scan Idle (joinWith sep (map f (x # xs)) @ rest)
            = scan Idle (f x @ (sep @ (joinWith sep (map f xs) @ rest)))"
      by (simp only: j append_assoc)
    also have "\<dots> = map_option ((@) (g x)) (scan Idle (sep @ (joinWith sep (map f xs) @ rest)))"
      using Cons.prems(1) [of x] ends by simp
    also have "\<dots> = map_option ((@) (g x @ [Comma])) (scan Idle (joinWith sep (map f xs) @ rest))"
      by (simp add: sep)
    also have "\<dots> = map_option ((@) (g x @ [Comma] @ joinWith [Comma] (map g xs))) (scan Idle rest)"
      by (simp only: ih map_option_append_append append_assoc)
    finally show ?thesis by (simp only: j)
  qed
qed

lemma scan_separator:
  assumes "\<forall>c\<in>set indent. isJsonSpace c"
  shows "scan Idle (('','' @ [CHR 0x0A] @ indent) @ r) = map_option ((#) Comma) (scan Idle r)"
    and "wordEnds (('','' @ [CHR 0x0A] @ indent) @ r)"
  using assms by (simp_all add: scan_punctuation scan_space wordEnds_simps del: scan.simps)

lemma scan_serialize:
  assumes "\<forall>c\<in>set gap. isJsonSpace c" and "\<forall>c\<in>set indent. isJsonSpace c"
    and "plain v" and "wordEnds rest"
  shows "scan Idle (serialize gap indent v @ rest) = map_option ((@) (tokensOf v)) (scan Idle rest)"
  using assms(2-4)
proof (induction v arbitrary: indent rest)
  case JNull
  then show ?case by (simp add: scan_atom [unfolded append.simps] del: scan.simps)
next
  case (JBool b)
  then show ?case by (simp add: scan_atom [unfolded append.simps] del: scan.simps)
next
  case (JNumber q)
  then show ?case by (simp add: scan_atom [unfolded append.simps] del: scan.simps)
next
  case (JString s)
  then show ?case by (simp add: scan_quoted del: scan.simps)
next
  case (JArray vs)
  show ?case
  proof (cases "vs = []")
    case True
    then show ?thesis by (simp add: scan_punctuation option.map_comp comp_def del: scan.simps)
  next
    case False
    let ?indent = "indent @ gap"
    let ?sep = "'','' @ [CHR 0x0A] @ ?indent"
    let ?tail = "[CHR 0x0A] @ indent @ '']'' @ rest"
    have sp: "\<forall>c\<in>set ?indent. isJsonSpace c" using assms(1) JArray.prems(1) by auto
    have elem: "scan Idle (serialize gap ?indent x @ r) = map_option ((@) (tokensOf x)) (scan Idle r)"
      if "x \<in> set vs" "wordEnds r" for x r
      using that JArray.prems(2) sp by (intro JArray.IH) (simp_all add: list_all_iff)
    have "scan Idle (serialize gap indent (JArray vs) @ rest)
            = map_option ((#) LBracket)
                (scan Idle (joinWith ?sep (map (serialize gap ?indent) vs) @ ?tail))"
      using False sp by (simp add: Let_def scan_punctuation scan_space del: scan.simps)
    also have "scan Idle (joinWith ?sep (map (serialize gap ?indent) vs) @ ?tail)
            = map_option ((@) (joinWith [Comma] (map tokensOf vs))) (scan Idle ?tail)"
      by (rule scan_joinWith [OF elem scan_separator(1) [OF sp] scan_separator(2) [OF sp] False])
         (simp_all add: wordEnds_simps)
    also have "scan Idle ?tail = map_option ((#) RBracket) (scan Idle rest)"
      using JArray.prems(1) by (simp add: scan_punctuation scan_space del: scan.simps)
    finally show ?thesis using False by (simp add: option.map_comp comp_def del: scan.simps)
  qed
next
  case (JObject kvs)
  show ?case
  proof (cases "kvs = []")
    case True
    then show ?thesis by (simp add: scan_punctuation option.map_comp comp_def del: scan.simps)
  next
    case False
    let ?indent = "indent @ gap"
    let ?sep = "'','' @ [CHR 0x0A] @ ?indent"
    let ?tail = "[CHR 0x0A] @ indent @ ''}'' @ rest"
    let ?f = "\<lambda>(k, v). quoteJSONString k @ '': '' @ serialize gap ?indent v"
    let ?g = "\<lambda>(k, v). StringTok k # Colon # tokensOf v"
    have sp: "\<forall>c\<in>set ?indent. isJsonSpace c" using assms(1) JObject.prems(1) by auto
    have elem: "scan Idle (?f kv @ r) = map_option ((@) (?g kv)) (scan Idle r)"
      if "kv \<in> set kvs" "wordEnds r" for kv r
    proof -
      obtain k v where kv: "kv = (k, v)" by (cases kv)
      with that(1) JObject.prems(2) have p: "plain v" by (auto simp: list_all_iff)
      from that(1) kv have "v \<in> Basic_BNFs.snds kv" by simp
      from JObject.IH [OF that(1) this sp p that(2)]
      have "scan Idle (serialize gap ?indent v @ r) = map_option ((@) (tokensOf v)) (scan Idle r)" .
      then show ?thesis
        by (simp add: kv scan_quoted scan_punctuation del: scan.simps)
    qed
    have "scan Idle (serialize gap indent (JObject kvs) @ rest)
            = map_option ((#) LBrace) (scan Idle (joinWith ?sep (map ?f kvs) @ ?tail))"
      using False sp by (simp add: Let_def scan_punctuation scan_space del: scan.simps)
    also have "scan Idle (joinWith ?sep (map ?f kvs) @ ?tail)
            = map_option ((@) (joinWith [Comma] (map ?g kvs))) (scan Idle ?tail)"
      by (rule scan_joinWith [OF elem scan_separator(1) [OF sp] scan_separator(2) [OF sp] False])
         (simp_all add: wordEnds_simps)
    also have "scan Idle ?tail = map_option ((#) RBrace) (scan Idle rest)"
      using JObject.prems(1) by (simp add: scan_punctuation scan_space del: scan.simps)
    finally show ?thesis using False by (simp add: option.map_comp comp_def del: scan.simps)
  qed
qed

section \<open>Parsing the tokens of a value\<close>

lemma setProp_fresh: "k \<notin> fst ` set ms \<Longrightarrow> setProp ms k v = ms @ [(k, v)]"
  by (induction ms) auto

lemma parseStep_value:
  assumes "e = Value \<or> e = ValueOrEnd" and "t \<noteq> RBracket"
  shows "parseStep (Parsing e stack) t = startValue t stack"
  using assms by (cases t) (auto split: list.splits frame.splits)

lemma parseStep_key:
  assumes "e = Key \<or> e = KeyOrEnd"
  shows "parseStep (Parsing e (ObjectFrame ms None # stack)) (StringTok k)
           = Some (Parsing ColonNext (ObjectFrame ms (Some k) # stack))"
  using assms by auto

lemma parse_elements:
  assumes elem: "\<And>x e stk r. x \<in> set vs \<Longrightarrow> e = Value \<or> e = ValueOrEnd \<Longrightarrow>
                   parseTokens (Parsing e stk) (tokensOf x @ r)
                     = (case deliver x stk of None \<Rightarrow> None | Some st \<Rightarrow> parseTokens st r)"
    and "vs \<noteq> []" and "e0 = Value \<or> e0 = ValueOrEnd"
  shows "parseTokens (Parsing e0 (ArrayFrame es # stack))
           (joinWith [Comma] (map tokensOf vs) @ RBracket # rest)
         = (case deliver (JArray (rev es @ vs)) stack of
              None \<Rightarrow> None | Some st \<Rightarrow> parseTokens st rest)"
  using assms
proof (induction vs arbitrary: es e0)
  case Nil
  then show ?case by simp
next
  case (Cons x xs)
  have first: "parseTokens (Parsing e0 (ArrayFrame es # stack)) (tokensOf x @ r)
                 = parseTokens (Parsing CommaOrEnd (ArrayFrame (x # es) # stack)) r" for r
    using Cons.prems(1) [of x e0 "ArrayFrame es # stack" r] Cons.prems(3) by simp
  show ?case
  proof (cases "xs = []")
    case True
    then show ?thesis by (simp add: first)
  next
    case False
    have ih: "parseTokens (Parsing Value (ArrayFrame (x # es) # stack))
                (joinWith [Comma] (map tokensOf xs) @ RBracket # rest)
              = (case deliver (JArray (rev (x # es) @ xs)) stack of
                   None \<Rightarrow> None | Some st \<Rightarrow> parseTokens st rest)"
      using Cons.prems(1) False by (intro Cons.IH) simp_all
    from False have j: "joinWith [Comma] (map tokensOf (x # xs))
        = tokensOf x @ [Comma] @ joinWith [Comma] (map tokensOf xs)"
      by (simp add: joinWith_Cons)
    have "parseTokens (Parsing e0 (ArrayFrame es # stack))
            (joinWith [Comma] (map tokensOf (x # xs)) @ RBracket # rest)
          = parseTokens (Parsing e0 (ArrayFrame es # stack))
              (tokensOf x @ (Comma # joinWith [Comma] (map tokensOf xs) @ RBracket # rest))"
      by (simp only: j append_assoc append.simps)
    also have "\<dots> = parseTokens (Parsing Value (ArrayFrame (x # es) # stack))
              (joinWith [Comma] (map tokensOf xs) @ RBracket # rest)"
      by (simp add: first)
    finally show ?thesis by (simp add: ih)
  qed
qed

lemma parse_members:
  assumes elem: "\<And>k v e stk r. (k, v) \<in> set kvs \<Longrightarrow> e = Value \<or> e = ValueOrEnd \<Longrightarrow>
                   parseTokens (Parsing e stk) (tokensOf v @ r)
                     = (case deliver v stk of None \<Rightarrow> None | Some st \<Rightarrow> parseTokens st r)"
    and "kvs \<noteq> []" and "e0 = Key \<or> e0 = KeyOrEnd"
    and "distinct (map fst kvs)" and "fst ` set kvs \<inter> fst ` set ms = {}"
  shows "parseTokens (Parsing e0 (ObjectFrame ms None # stack))
           (joinWith [Comma] (map (\<lambda>(k, v). StringTok k # Colon # tokensOf v) kvs) @ RBrace # rest)
         = (case deliver (JObject (ms @ kvs)) stack of
              None \<Rightarrow> None | Some st \<Rightarrow> parseTokens st rest)"
  using assms
proof (induction kvs arbitrary: ms e0)
  case Nil
  then show ?case by simp
next
  case (Cons kv kvs)
  obtain k v where kv: "kv = (k, v)" by (cases kv)
  let ?g = "\<lambda>(k, v). StringTok k # Colon # tokensOf v"
  from Cons.prems(5) kv have fresh: "k \<notin> fst ` set ms" by auto
  have first: "parseTokens (Parsing e0 (ObjectFrame ms None # stack)) (?g kv @ r)
                 = parseTokens (Parsing CommaOrEnd (ObjectFrame (ms @ [(k, v)]) None # stack)) r" for r
    using Cons.prems(1) [of k v Value "ObjectFrame ms (Some k) # stack" r]
      parseStep_key [OF Cons.prems(3), of ms stack k]
    by (simp add: kv setProp_fresh [OF fresh])
  show ?case
  proof (cases "kvs = []")
    case True
    then show ?thesis using first [of "RBrace # rest"] by (simp add: kv)
  next
    case False
    have ih: "parseTokens (Parsing Key (ObjectFrame (ms @ [(k, v)]) None # stack))
                (joinWith [Comma] (map ?g kvs) @ RBrace # rest)
              = (case deliver (JObject ((ms @ [(k, v)]) @ kvs)) stack of
                   None \<Rightarrow> None | Some st \<Rightarrow> parseTokens st rest)"
    proof (rule Cons.IH [OF _ False])
      show "parseTokens (Parsing e stk) (tokensOf v' @ r)
              = (case deliver v' stk of None \<Rightarrow> None | Some st \<Rightarrow> parseTokens st r)"
        if "(k', v') \<in> set kvs" "e = Value \<or> e = ValueOrEnd" for k' v' e stk r
        using that by (intro Cons.prems(1) [of k' v']) simp_all
      show "Key = Key \<or> Key = KeyOrEnd" by simp
      show "distinct (map fst kvs)" using Cons.prems(4) by simp
      show "fst ` set kvs \<inter> fst ` set (ms @ [(k, v)]) = {}"
        using Cons.prems(4) Cons.prems(5) kv by auto
    qed
    from False have j: "joinWith [Comma] (map ?g (kv # kvs))
        = ?g kv @ [Comma] @ joinWith [Comma] (map ?g kvs)"
      by (simp add: joinWith_Cons)
    have "parseTokens (Parsing e0 (ObjectFrame ms None # stack))
            (joinWith [Comma] (map ?g (kv # kvs)) @ RBrace # rest)
          = parseTokens (Parsing e0 (ObjectFrame ms None # stack))
              (?g kv @ (Comma # joinWith [Comma] (map ?g kvs) @ RBrace # rest))"
      by (simp only: j append_assoc append.simps)
    also have "\<dots> = parseTokens (Parsing Key (ObjectFrame (ms @ [(k, v)]) None # stack))
              (joinWith [Comma] (map ?g kvs) @ RBrace # rest)"
      by (simp add: first)
    finally show ?thesis by (simp add: ih kv)
  qed
qed

lemma parse_tokensOf:
  assumes "e = Value \<or> e = ValueOrEnd" and "plain v"
  shows "parseTokens (Parsing e stack) (tokensOf v @ rest)
           = (case deliver v stack of None \<Rightarrow> None | Some st \<Rightarrow> parseTokens st rest)"
  using assms
proof (induction v arbitrary: e stack rest)
  case (JArray vs)
  show ?case
  proof (cases "vs = []")
    case True
    then show ?thesis using JArray.prems(1) by (auto simp: parseStep_value)
  next
    case False
    have elem: "parseTokens (Parsing e' stk) (tokensOf x @ r)
                     = (case deliver x stk of None \<Rightarrow> None | Some st \<Rightarrow> parseTokens st r)"
      if "x \<in> set vs" "e' = Value \<or> e' = ValueOrEnd" for x e' stk r
      using that JArray.prems(2) by (intro JArray.IH) (simp_all add: list_all_iff)
    have "parseTokens (Parsing e stack) (tokensOf (JArray vs) @ rest)
            = parseTokens (Parsing ValueOrEnd (ArrayFrame [] # stack))
                (joinWith [Comma] (map tokensOf vs) @ RBracket # rest)"
      using False JArray.prems(1) by (auto simp: parseStep_value)
    also have "\<dots> = (case deliver (JArray (rev [] @ vs)) stack of
              None \<Rightarrow> None | Some st \<Rightarrow> parseTokens st rest)"
      by (rule parse_elements [OF elem False]) simp_all
    finally show ?thesis by simp
  qed
next
  case (JObject kvs)
  show ?case
  proof (cases "kvs = []")
    case True
    then show ?thesis using JObject.prems(1) by (auto simp: parseStep_value)
  next
    case False
    have elem: "parseTokens (Parsing e' stk) (tokensOf v @ r)
                     = (case deliver v stk of None \<Rightarrow> None | Some st \<Rightarrow> parseTokens st r)"
      if "(k, v) \<in> set kvs" "e' = Value \<or> e' = ValueOrEnd" for k v e' stk r
    proof -
      from that(1) have "v \<in> Basic_BNFs.snds (k, v)" by simp
      moreover from that(1) JObject.prems(2) have "plain v" by (auto simp: list_all_iff)
      ultimately show ?thesis using that by (intro JObject.IH [of "(k, v)"]) simp_all
    qed
    from JObject.prems(2) have d: "distinct (map fst kvs)" by simp
    have "parseTokens (Parsing e stack) (tokensOf (JObject kvs) @ rest)
            = parseTokens (Parsing KeyOrEnd (ObjectFrame [] None # stack))
                (joinWith [Comma] (map (\<lambda>(k, v). StringTok k # Colon # tokensOf v) kvs)
                 @ RBrace # rest)"
      using False JObject.prems(1) by (auto simp: parseStep_value)
    also have "\<dots> = (case deliver (JObject ([] @ kvs)) stack of
              None \<Rightarrow> None | Some st \<Rightarrow> parseTokens st rest)"
      by (rule parse_members [OF elem False _ d]) simp_all
    finally show ?thesis by simp
  qed
qed (auto simp: parseStep_value)

text \<open>Parsing the text written for a plain value gives the value back.\<close>

lemma JSON_parse_serialize:
  assumes "\<forall>c\<in>set gap. isJsonSpace c" and "\<forall>c\<in>set indent. isJsonSpace c" and "plain v"
  shows "JSON_parse (serialize gap indent v) = Inr v"
proof -
  have "scan Idle (serialize gap indent v @ []) = map_option ((@) (tokensOf v)) (scan Idle [])"
    by (rule scan_serialize [OF assms]) (simp add: wordEnds_simps)
  then have s: "scan Idle (serialize gap indent v) = Some (tokensOf v)" by simp
  have "parseTokens (Parsing Value []) (tokensOf v @ [])
          = (case deliver v [] of None \<Rightarrow> None | Some st \<Rightarrow> parseTokens st [])"
    by (rule parse_tokensOf) (simp_all add: assms(3))
  then have p: "parseTokens (Parsing Value []) (tokensOf v) = Some v" by simp
  show ?thesis by (simp add: JSON_parse_def s p)
qed

lemma JSON_parse_formatSchema: "plain obj \<Longrightarrow> JSON_parse (formatSchema obj) = Inr obj"
  unfolding formatSchema_def JSON_stringify2_def
  by (rule JSON_parse_serialize) (simp_all add: isJsonSpace_def)

text \<open>The schema objects of the module are plain.\<close>

lemma plain_all:
  "plain (input (getDefaultSchema ())) \<and> plain (output (getDefaultSchema ()))
   \<and> (\<forall>pattern\<in>set schemaPatterns.
         plain (input (generator pattern ())) \<and> plain (output (generator pattern ())))"
  by code_simp

section \<open>The indentation of what \<open>JSON.stringify\<close> writes\<close>

lemma splitLines_nonempty: "splitLines s \<noteq> []"
  by (induction s) (auto split: list.splits)

lemma splitLines_append_LF: "splitLines (a @ CHR 0x0A # b) = splitLines a @ splitLines b"
proof (induction a)
  case Nil
  show ?case using splitLines_nonempty [of b] by (auto split: list.splits)
next
  case (Cons c a)
  obtain l ls where "splitLines a = l # ls" using splitLines_nonempty [of a]
    by (cases "splitLines a") auto
  with Cons show ?case by (auto split: list.splits)
qed

lemma splitLines_single: "CHR 0x0A \<notin> set a \<Longrightarrow> splitLines a = [a]"
  by (induction a) auto

lemma indentedFrom_append:
  "indentedFrom d (ls1 @ ls2) \<longleftrightarrow> indentedFrom d ls1 \<and> indentedFrom (depthAfter d ls1) ls2"
  by (induction ls1 arbitrary: d) auto

lemma depthAfter_append: "depthAfter d (ls1 @ ls2) = depthAfter (depthAfter d ls1) ls2"
  by (induction ls1 arbitrary: d) auto

subsection \<open>Lines that hold one piece\<close>

lemma indentOf_replicate:
  "x \<noteq> [] \<Longrightarrow> hd x \<noteq> CHR '' '' \<Longrightarrow> indentOf (replicate n (CHR '' '') @ x) = n"
  by (cases x) (simp_all add: indentOf_def takeWhile_append)

lemma closesLevel_replicate:
  "x \<noteq> [] \<Longrightarrow> hd x \<noteq> CHR '' '' \<Longrightarrow>
   closesLevel (replicate n (CHR '' '') @ x) \<longleftrightarrow> hd x = CHR ''}'' \<or> hd x = CHR '']''"
  by (cases x) (simp_all add: closesLevel_def dropWhile_append)

lemma opensLevel_last:
  "x \<noteq> [] \<Longrightarrow> opensLevel (y @ x) \<longleftrightarrow> last x = CHR ''{'' \<or> last x = CHR ''[''"
proof -
  assume "x \<noteq> []"
  then obtain c cs where "rev x = c # cs" "last x = c"
    by (cases "rev x") (auto simp: last_rev [symmetric] simp del: last_rev)
  then show ?thesis by (simp add: opensLevel_def)
qed

lemma inline_line:
  assumes "inlinePiece t"
    and "p = [] \<or> (hd p = CHR 0x22 \<and> CHR 0x0A \<notin> set p)"
    and "s = [] \<or> s = '',''"
  shows "splitLines (replicate (2 * d) (CHR '' '') @ p @ t @ s)
           = [replicate (2 * d) (CHR '' '') @ p @ t @ s]"
    and "indentedFrom d [replicate (2 * d) (CHR '' '') @ p @ t @ s]"
    and "depthAfter d [replicate (2 * d) (CHR '' '') @ p @ t @ s] = d"
proof -
  let ?x = "p @ t @ s"
  from assms(1) have t: "t \<noteq> []" "CHR 0x0A \<notin> set t"
    "hd t \<noteq> CHR '' ''" "hd t \<noteq> CHR ''}''" "hd t \<noteq> CHR '']''"
    "last t \<noteq> CHR ''{''" "last t \<noteq> CHR ''[''"
    by (simp_all add: inlinePiece_def)
  have x: "?x \<noteq> []" using t(1) by simp
  have h: "hd ?x \<noteq> CHR '' ''" "hd ?x \<noteq> CHR ''}''" "hd ?x \<noteq> CHR '']''"
    using assms(2) t by (auto simp: hd_append)
  have "t @ s \<noteq> []" using t(1) by simp
  moreover have "last (t @ s) \<noteq> CHR ''{''" "last (t @ s) \<noteq> CHR ''[''"
    using assms(3) t by auto
  ultimately have o: "\<not> opensLevel ((replicate (2 * d) (CHR '' '') @ p) @ (t @ s))"
    using opensLevel_last [of "t @ s" "replicate (2 * d) (CHR '' '') @ p"] by blast
  have c: "\<not> closesLevel (replicate (2 * d) (CHR '' '') @ ?x)"
    using closesLevel_replicate [OF x h(1)] h by simp
  have i: "indentOf (replicate (2 * d) (CHR '' '') @ ?x) = 2 * d"
    by (rule indentOf_replicate [OF x h(1)])
  have "CHR 0x0A \<notin> set (replicate (2 * d) (CHR '' '') @ ?x)"
    using assms(2) assms(3) t(2) by auto
  then show "splitLines (replicate (2 * d) (CHR '' '') @ p @ t @ s)
           = [replicate (2 * d) (CHR '' '') @ p @ t @ s]"
    by (rule splitLines_single)
  show "indentedFrom d [replicate (2 * d) (CHR '' '') @ p @ t @ s]"
    using o c i by (simp add: levelOf_def depthAfterLine_def)
  show "depthAfter d [replicate (2 * d) (CHR '' '') @ p @ t @ s] = d"
    using o c by (simp add: levelOf_def depthAfterLine_def)
qed

lemma hexDigit_not_LF: "d < 16 \<Longrightarrow> hexDigit d \<noteq> CHR 0x0A"
proof
  assume d: "d < 16" and "hexDigit d = CHR 0x0A"
  then have "(of_char (hexDigit d) :: nat) = 10" by simp
  with d show False by (simp add: hexDigit_def split: if_splits)
qed

lemma quoteChar_no_LF: "CHR 0x0A \<notin> set (quoteChar c)"
proof -
  let ?n = "of_char c :: nat"
  show ?thesis
  proof (cases "?n < 32")
    case True
    then have "?n div 16 < 16" "?n mod 16 < 16" by simp_all
    then have "hexDigit (?n div 16) \<noteq> CHR 0x0A" "hexDigit (?n mod 16) \<noteq> CHR 0x0A"
      by (simp_all add: hexDigit_not_LF)
    then show ?thesis by (auto simp: quoteChar_def Let_def)
  next
    case False
    then have "c \<noteq> CHR 0x0A" by auto
    with False show ?thesis by (auto simp: quoteChar_def Let_def)
  qed
qed

lemma quoteJSONString_inline: "inlinePiece (quoteJSONString s)"
  and quoteJSONString_prefix: "hd (quoteJSONString s @ x) = CHR 0x22"
    "CHR 0x0A \<notin> set (quoteJSONString s)"
  using quoteChar_no_LF by (auto simp: inlinePiece_def quoteJSONString_def)

lemma digit_plain_char:
  assumes "isDigit c"
  shows "c \<noteq> CHR 0x0A" "c \<noteq> CHR '' ''" "c \<noteq> CHR ''}''" "c \<noteq> CHR '']''"
    "c \<noteq> CHR ''{''" "c \<noteq> CHR ''[''"
  using assms by (auto simp: isDigit_def)

lemma showNat_inline: "inlinePiece (showNat n)"
proof -
  have d: "\<forall>c\<in>set (showNat n). isDigit c" by (rule showNat_digits)
  have n: "showNat n \<noteq> []" by (rule showNat_nonempty)
  then have "hd (showNat n) \<in> set (showNat n)" "last (showNat n) \<in> set (showNat n)" by simp_all
  with d have "isDigit (hd (showNat n))" "isDigit (last (showNat n))" by blast+
  moreover have "CHR 0x0A \<notin> set (showNat n)" using d digit_plain_char(1) by blast
  ultimately show ?thesis using n by (simp add: inlinePiece_def digit_plain_char)
qed

lemma numberToString_inline:
  assumes "of_int \<lfloor>q\<rfloor> = q"
  shows "inlinePiece (numberToString q)"
proof -
  let ?ds = "showNat (nat \<lfloor>\<bar>q\<bar>\<rfloor>)"
  have t: "numberToString q = (if q < 0 then ''-'' else []) @ ?ds"
    by (rule numberToString_integer(1) [OF assms])
  from showNat_inline [of "nat \<lfloor>\<bar>q\<bar>\<rfloor>"] show ?thesis
    by (auto simp: t inlinePiece_def)
qed

lemma literal_inline: "inlinePiece ''null''" "inlinePiece ''true''" "inlinePiece ''false''"
  "inlinePiece ''{}''" "inlinePiece ''[]''"
  by (simp_all add: inlinePiece_def)

subsection \<open>Lines that open and close a level\<close>

lemma open_line:
  assumes "p = [] \<or> (hd p = CHR 0x22 \<and> CHR 0x0A \<notin> set p)"
    and "b = CHR ''{'' \<or> b = CHR ''[''"
  shows "splitLines (replicate (2 * d) (CHR '' '') @ p @ [b]) = [replicate (2 * d) (CHR '' '') @ p @ [b]]"
    and "indentedFrom d [replicate (2 * d) (CHR '' '') @ p @ [b]]"
    and "depthAfter d [replicate (2 * d) (CHR '' '') @ p @ [b]] = d + 1"
proof -
  let ?x = "p @ [b]"
  have x: "?x \<noteq> []" by simp
  have h: "hd ?x \<noteq> CHR '' ''" "hd ?x \<noteq> CHR ''}''" "hd ?x \<noteq> CHR '']''"
    using assms by (auto simp: hd_append)
  have o: "opensLevel ((replicate (2 * d) (CHR '' '') @ p) @ [b])"
    using opensLevel_last [of "[b]" "replicate (2 * d) (CHR '' '') @ p"] assms(2) by simp
  have c: "\<not> closesLevel (replicate (2 * d) (CHR '' '') @ ?x)"
    using closesLevel_replicate [OF x h(1)] h by simp
  have i: "indentOf (replicate (2 * d) (CHR '' '') @ ?x) = 2 * d"
    by (rule indentOf_replicate [OF x h(1)])
  have "CHR 0x0A \<notin> set (replicate (2 * d) (CHR '' '') @ ?x)"
    using assms by auto
  then show "splitLines (replicate (2 * d) (CHR '' '') @ p @ [b]) = [replicate (2 * d) (CHR '' '') @ p @ [b]]"
    by (rule splitLines_single)
  show "indentedFrom d [replicate (2 * d) (CHR '' '') @ p @ [b]]"
    using o c i by (simp add: levelOf_def depthAfterLine_def)
  show "depthAfter d [replicate (2 * d) (CHR '' '') @ p @ [b]] = d + 1"
    using o c by (simp add: levelOf_def depthAfterLine_def)
qed

lemma close_line:
  assumes "b = CHR ''}'' \<or> b = CHR '']''" and "s = [] \<or> s = '',''"
  shows "splitLines (replicate (2 * d) (CHR '' '') @ [b] @ s) = [replicate (2 * d) (CHR '' '') @ [b] @ s]"
    and "indentedFrom (d + 1) [replicate (2 * d) (CHR '' '') @ [b] @ s]"
    and "depthAfter (d + 1) [replicate (2 * d) (CHR '' '') @ [b] @ s] = d"
proof -
  let ?x = "[b] @ s"
  have x: "?x \<noteq> []" by simp
  have h: "hd ?x \<noteq> CHR '' ''" "hd ?x = CHR ''}'' \<or> hd ?x = CHR '']''"
    using assms by auto
  have "last ?x \<noteq> CHR ''{''" "last ?x \<noteq> CHR ''[''" using assms by auto
  then have o: "\<not> opensLevel (replicate (2 * d) (CHR '' '') @ ?x)"
    using opensLevel_last [OF x, of "replicate (2 * d) (CHR '' '')"] by blast
  have c: "closesLevel (replicate (2 * d) (CHR '' '') @ ?x)"
    using closesLevel_replicate [OF x h(1)] h(2) by blast
  have i: "indentOf (replicate (2 * d) (CHR '' '') @ ?x) = 2 * d"
    by (rule indentOf_replicate [OF x h(1)])
  have "CHR 0x0A \<notin> set (replicate (2 * d) (CHR '' '') @ ?x)"
    using assms by auto
  then show "splitLines (replicate (2 * d) (CHR '' '') @ [b] @ s) = [replicate (2 * d) (CHR '' '') @ [b] @ s]"
    by (rule splitLines_single)
  show "indentedFrom (d + 1) [replicate (2 * d) (CHR '' '') @ [b] @ s]"
    using o c i by (simp add: levelOf_def depthAfterLine_def)
  show "depthAfter (d + 1) [replicate (2 * d) (CHR '' '') @ [b] @ s] = d"
    using o c by (simp add: levelOf_def depthAfterLine_def)
qed

lemma indented_joinWith:
  assumes elem: "\<And>x s. x \<in> set xs \<Longrightarrow> s = [] \<or> s = '','' \<Longrightarrow>
                   indentedFrom D (splitLines (ind @ f x @ s))
                   \<and> depthAfter D (splitLines (ind @ f x @ s)) = D"
    and "xs \<noteq> []"
  shows "indentedFrom D (splitLines (ind @ joinWith ('','' @ [CHR 0x0A] @ ind) (map f xs)))
       \<and> depthAfter D (splitLines (ind @ joinWith ('','' @ [CHR 0x0A] @ ind) (map f xs))) = D"
  using assms
proof (induction xs)
  case Nil
  then show ?case by simp
next
  case (Cons x xs)
  let ?sep = "'','' @ [CHR 0x0A] @ ind"
  show ?case
  proof (cases "xs = []")
    case True
    then show ?thesis using Cons.prems(1) [of x "[]"] by simp
  next
    case False
    have ih: "indentedFrom D (splitLines (ind @ joinWith ?sep (map f xs)))
       \<and> depthAfter D (splitLines (ind @ joinWith ?sep (map f xs))) = D"
      using Cons.prems(1) False by (intro Cons.IH) simp_all
    have first: "indentedFrom D (splitLines (ind @ f x @ '',''))
       \<and> depthAfter D (splitLines (ind @ f x @ '','')) = D"
      using Cons.prems(1) [of x "'',''"] by simp
    from False have "joinWith ?sep (map f (x # xs)) = f x @ ?sep @ joinWith ?sep (map f xs)"
      by (simp add: joinWith_Cons)
    then have "ind @ joinWith ?sep (map f (x # xs))
        = (ind @ f x @ '','') @ CHR 0x0A # (ind @ joinWith ?sep (map f xs))"
      by simp
    then have "splitLines (ind @ joinWith ?sep (map f (x # xs)))
        = splitLines (ind @ f x @ '','') @ splitLines (ind @ joinWith ?sep (map f xs))"
      by (simp only: splitLines_append_LF)
    with ih first show ?thesis
      by (simp add: indentedFrom_append depthAfter_append)
  qed
qed

lemma replicate_two: "replicate (2 * d) c @ [c, c] = replicate (2 * (d + 1)) c"
proof -
  have "[c, c] = replicate 2 c" by (simp add: numeral_2_eq_2)
  then have "replicate (2 * d) c @ [c, c] = replicate (2 * d + 2) c"
    by (simp only: replicate_add [symmetric])
  then show ?thesis by simp
qed

lemma indented_container:
  assumes "p = [] \<or> (hd p = CHR 0x22 \<and> CHR 0x0A \<notin> set p)" and "s = [] \<or> s = '',''"
    and "(b, e) = (CHR ''{'', CHR ''}'') \<or> (b, e) = (CHR ''['', CHR '']'')"
    and "indentedFrom (d + 1) (splitLines (replicate (2 * (d + 1)) (CHR '' '') @ body))
         \<and> depthAfter (d + 1) (splitLines (replicate (2 * (d + 1)) (CHR '' '') @ body)) = d + 1"
  shows "indentedFrom d (splitLines (replicate (2 * d) (CHR '' '') @ p
            @ ([b] @ [CHR 0x0A] @ (replicate (2 * d) (CHR '' '') @ ''  '') @ body
               @ [CHR 0x0A] @ replicate (2 * d) (CHR '' '') @ [e]) @ s))
       \<and> depthAfter d (splitLines (replicate (2 * d) (CHR '' '') @ p
            @ ([b] @ [CHR 0x0A] @ (replicate (2 * d) (CHR '' '') @ ''  '') @ body
               @ [CHR 0x0A] @ replicate (2 * d) (CHR '' '') @ [e]) @ s)) = d"
proof -
  let ?ind = "replicate (2 * d) (CHR '' '')"
  let ?ind' = "replicate (2 * (d + 1)) (CHR '' '')"
  from assms(3) have b: "b = CHR ''{'' \<or> b = CHR ''[''" and e: "e = CHR ''}'' \<or> e = CHR '']''"
    by auto
  have i: "?ind @ ''  '' = ?ind'" using replicate_two [of d "CHR '' ''"] by simp
  have "?ind @ p @ ([b] @ [CHR 0x0A] @ (?ind @ ''  '') @ body @ [CHR 0x0A] @ ?ind @ [e]) @ s
      = (?ind @ p @ [b]) @ CHR 0x0A # ((?ind' @ body) @ CHR 0x0A # (?ind @ [e] @ s))"
    by (simp only: i [symmetric] append_assoc append.simps)
  then have l: "splitLines (?ind @ p @ ([b] @ [CHR 0x0A] @ (?ind @ ''  '') @ body
                  @ [CHR 0x0A] @ ?ind @ [e]) @ s)
      = [?ind @ p @ [b]] @ splitLines (?ind' @ body) @ [?ind @ [e] @ s]"
    by (simp only: splitLines_append_LF open_line(1) [OF assms(1) b] close_line(1) [OF e assms(2)])
  show ?thesis
    unfolding l
    using open_line(2,3) [OF assms(1) b, of d] close_line(2,3) [OF e assms(2), of d] assms(4)
    by (simp add: indentedFrom_append depthAfter_append)
qed

subsection \<open>Values\<close>

text \<open>The layout of an object with members and of an array with elements, at any depth.\<close>

lemma serialize_object_layout:
  "members \<noteq> [] \<Longrightarrow>
   serialize gap indent (JObject members)
     = ''{'' @ [CHR 0x0A] @ (indent @ gap)
       @ joinWith ('','' @ [CHR 0x0A] @ (indent @ gap))
           (map (\<lambda>(k, v). quoteJSONString k @ '': '' @ serialize gap (indent @ gap) v) members)
       @ [CHR 0x0A] @ indent @ ''}''"
  by (simp add: Let_def)

lemma serialize_array_layout:
  "elements \<noteq> [] \<Longrightarrow>
   serialize gap indent (JArray elements)
     = ''['' @ [CHR 0x0A] @ (indent @ gap)
       @ joinWith ('','' @ [CHR 0x0A] @ (indent @ gap))
           (map (serialize gap (indent @ gap)) elements)
       @ [CHR 0x0A] @ indent @ '']''"
  by (simp add: Let_def)

lemma indented_serialize:
  assumes "plain v"
    and "p = [] \<or> (hd p = CHR 0x22 \<and> CHR 0x0A \<notin> set p)" and "s = [] \<or> s = '',''"
  shows "indentedFrom d (splitLines (replicate (2 * d) (CHR '' '') @ p
            @ serialize ''  '' (replicate (2 * d) (CHR '' '')) v @ s))
       \<and> depthAfter d (splitLines (replicate (2 * d) (CHR '' '') @ p
            @ serialize ''  '' (replicate (2 * d) (CHR '' '')) v @ s)) = d"
  using assms
proof (induction v arbitrary: d p s)
  case JNull
  from inline_line [OF literal_inline(1) JNull(2) JNull(3), of d] show ?case by simp
next
  case (JBool b)
  from inline_line [OF literal_inline(2) JBool(2) JBool(3), of d]
    inline_line [OF literal_inline(3) JBool(2) JBool(3), of d]
  show ?case by simp
next
  case (JNumber q)
  then have "inlinePiece (numberToString q)" by (simp add: numberToString_inline)
  from inline_line [OF this JNumber(2) JNumber(3), of d] show ?case by simp
next
  case (JString t)
  from inline_line [OF quoteJSONString_inline [of t] JString(2) JString(3), of d] show ?case by simp
next
  case (JArray vs)
  let ?ind = "replicate (2 * d) (CHR '' '')"
  let ?ind' = "replicate (2 * (d + 1)) (CHR '' '')"
  show ?case
  proof (cases "vs = []")
    case True
    from inline_line [OF literal_inline(5) JArray(3) JArray(4), of d] True show ?thesis by simp
  next
    case False
    have i: "?ind @ ''  '' = ?ind'" using replicate_two [of d "CHR '' ''"] by simp
    let ?body = "joinWith ('','' @ [CHR 0x0A] @ ?ind') (map (serialize ''  '' ?ind') vs)"
    have elem: "indentedFrom (d + 1) (splitLines (?ind' @ serialize ''  '' ?ind' x @ s'))
                \<and> depthAfter (d + 1) (splitLines (?ind' @ serialize ''  '' ?ind' x @ s')) = d + 1"
      if "x \<in> set vs" "s' = [] \<or> s' = '',''" for x s'
    proof -
      from that(1) JArray.prems(1) have "plain x" by (simp add: list_all_iff)
      from JArray.IH [OF that(1) this _ that(2), of "[]" "d + 1"] show ?thesis by simp
    qed
    have mid: "indentedFrom (d + 1) (splitLines (?ind' @ ?body))
               \<and> depthAfter (d + 1) (splitLines (?ind' @ ?body)) = d + 1"
      by (rule indented_joinWith [OF elem False])
    have "serialize ''  '' ?ind (JArray vs)
            = [CHR ''[''] @ [CHR 0x0A] @ (?ind @ ''  '') @ ?body @ [CHR 0x0A] @ ?ind @ [CHR '']'']"
      by (simp only: serialize_array_layout [OF False] i)
    then show ?thesis
      using indented_container [OF JArray.prems(2) JArray.prems(3) _ mid, of "CHR ''[''" "CHR '']''"]
      by simp
  qed
next
  case (JObject kvs)
  let ?ind = "replicate (2 * d) (CHR '' '')"
  let ?ind' = "replicate (2 * (d + 1)) (CHR '' '')"
  let ?f = "\<lambda>(k, v). quoteJSONString k @ '': '' @ serialize ''  '' ?ind' v"
  show ?case
  proof (cases "kvs = []")
    case True
    from inline_line [OF literal_inline(4) JObject(3) JObject(4), of d] True show ?thesis by simp
  next
    case False
    have i: "?ind @ ''  '' = ?ind'" using replicate_two [of d "CHR '' ''"] by simp
    let ?body = "joinWith ('','' @ [CHR 0x0A] @ ?ind') (map ?f kvs)"
    have elem: "indentedFrom (d + 1) (splitLines (?ind' @ ?f kv @ s'))
                \<and> depthAfter (d + 1) (splitLines (?ind' @ ?f kv @ s')) = d + 1"
      if "kv \<in> set kvs" "s' = [] \<or> s' = '',''" for kv s'
    proof -
      obtain k v where kv: "kv = (k, v)" by (cases kv)
      from that(1) kv JObject.prems(1) have pl: "plain v" by (auto simp: list_all_iff)
      from that(1) kv have sn: "v \<in> Basic_BNFs.snds kv" by simp
      have pre: "quoteJSONString k @ '': '' = [] \<or>
                 (hd (quoteJSONString k @ '': '') = CHR 0x22
                  \<and> CHR 0x0A \<notin> set (quoteJSONString k @ '': ''))"
        using quoteJSONString_prefix [of k] by simp
      from JObject.IH [OF that(1) sn pl pre that(2), of "d + 1"] show ?thesis
        by (simp add: kv)
    qed
    have mid: "indentedFrom (d + 1) (splitLines (?ind' @ ?body))
               \<and> depthAfter (d + 1) (splitLines (?ind' @ ?body)) = d + 1"
      by (rule indented_joinWith [OF elem False])
    have "serialize ''  '' ?ind (JObject kvs)
            = [CHR ''{''] @ [CHR 0x0A] @ (?ind @ ''  '') @ ?body @ [CHR 0x0A] @ ?ind @ [CHR ''}'']"
      by (simp only: serialize_object_layout [OF False] i)
    then show ?thesis
      using indented_container [OF JObject.prems(2) JObject.prems(3) _ mid, of "CHR ''{''" "CHR ''}''"]
      by simp
  qed
qed

text \<open>The text written for a plain value is indented by two spaces per level.\<close>

lemma indentedBy2_formatSchema: "plain obj \<Longrightarrow> indentedBy2 (formatSchema obj)"
  using indented_serialize [of obj "[]" "[]" 0]
  by (simp add: indentedBy2_def formatSchema_def JSON_stringify2_def)


section \<open>Formatting and parsing back\<close>

lemma generateSchemas_plain:
  "plain (input (generateSchemas d)) \<and> plain (output (generateSchemas d))"
  using generateSchemas_cases [of d] plain_all by metis

lemma createSchema_members:
  "createSchema properties required
     = JObject [(''type'', JString ''object''),
                (''properties'', JObject (foldl addProperty [] properties)),
                (''required'', JArray (map JString required))]"
  by (simp add: createSchema_def)

lemma schema_sets_are_objects:
  "(\<exists>v1 v2 v3. input (getDefaultSchema ()) = JObject [(''type'', v1), (''properties'', v2), (''required'', v3)])
   \<and> (\<exists>v1 v2 v3. output (getDefaultSchema ()) = JObject [(''type'', v1), (''properties'', v2), (''required'', v3)])
   \<and> (\<forall>pattern\<in>set schemaPatterns.
         (\<exists>v1 v2 v3. input (generator pattern ()) = JObject [(''type'', v1), (''properties'', v2), (''required'', v3)])
       \<and> (\<exists>v1 v2 v3. output (generator pattern ()) = JObject [(''type'', v1), (''properties'', v2), (''required'', v3)]))"
  by (simp add: getDefaultSchema_def schemaPatterns_def pattern_defs createSchema_members
      fraudSchemas_def churnSchemas_def sentimentSchemas_def classifySchemas_def priceSchemas_def
      recommendSchemas_def anomalySchemas_def imageSchemas_def summarizeSchemas_def
      predictSchemas_def)

lemma generateSchemas_objects:
  "(\<exists>v1 v2 v3. input (generateSchemas d) = JObject [(''type'', v1), (''properties'', v2), (''required'', v3)])
   \<and> (\<exists>v1 v2 v3. output (generateSchemas d) = JObject [(''type'', v1), (''properties'', v2), (''required'', v3)])"
  using generateSchemas_cases [of d] schema_sets_are_objects by metis

text \<open>
  Claim C7: for every schema object \<open>obj\<close> that \<open>generateSchemas\<close> returns, as input or as
  output schema, parsing the text \<open>formatSchema obj\<close> gives \<open>obj\<close> back, with the keys in the
  same order at every level. The text is a function of \<open>obj\<close> alone: it is what
  \<open>JSON.stringify\<close> writes with a gap of two spaces. Every line of it is indented by two
  spaces for each bracket that is open at that line. \<open>obj\<close> has the members \<open>type\<close>,
  \<open>properties\<close> and \<open>required\<close>, and the text holds them in this order, each starting a line
  after two spaces.
\<close>

theorem C7_format_round_trip:
  assumes "obj = input (generateSchemas problemDescription)
           \<or> obj = output (generateSchemas problemDescription)"
  shows "JSON_parse (formatSchema obj) = Inr obj
       \<and> formatSchema obj = serialize ''  '' [] obj
       \<and> indentedBy2 (formatSchema obj)
       \<and> (\<exists>members. obj = JObject members
             \<and> map fst members = [''type'', ''properties'', ''required'']
             \<and> formatSchema obj
                 = ''{'' @ [CHR 0x0A] @ ''  ''
                   @ joinWith ('','' @ [CHR 0x0A] @ ''  '')
                       (map (\<lambda>(k, v). quoteJSONString k @ '': '' @ serialize ''  '' ''  '' v) members)
                   @ [CHR 0x0A] @ ''}'')"
proof -
  from assms generateSchemas_plain [of problemDescription] have p: "plain obj" by blast
  then have r: "JSON_parse (formatSchema obj) = Inr obj" by (rule JSON_parse_formatSchema)
  from p have n: "indentedBy2 (formatSchema obj)" by (rule indentedBy2_formatSchema)
  have f: "formatSchema obj = serialize ''  '' [] obj"
    by (simp add: formatSchema_def JSON_stringify2_def)
  from assms generateSchemas_objects [of problemDescription]
  obtain v1 v2 v3 where o: "obj = JObject [(''type'', v1), (''properties'', v2), (''required'', v3)]"
    by blast
  have "formatSchema (JObject [(''type'', v1), (''properties'', v2), (''required'', v3)])
          = ''{'' @ [CHR 0x0A] @ ''  ''
            @ joinWith ('','' @ [CHR 0x0A] @ ''  '')
                (map (\<lambda>(k, v). quoteJSONString k @ '': '' @ serialize ''  '' ''  '' v)
                   [(''type'', v1), (''properties'', v2), (''required'', v3)])
            @ [CHR 0x0A] @ ''}''"
    by (simp add: formatSchema_def JSON_stringify2_def Let_def)
  with o have "\<exists>members. obj = JObject members
             \<and> map fst members = [''type'', ''properties'', ''required'']
             \<and> formatSchema obj
                 = ''{'' @ [CHR 0x0A] @ ''  ''
                   @ joinWith ('','' @ [CHR 0x0A] @ ''  '')
                       (map (\<lambda>(k, v). quoteJSONString k @ '': '' @ serialize ''  '' ''  '' v) members)
                   @ [CHR 0x0A] @ ''}''"
    by (intro exI [of _ "[(''type'', v1), (''properties'', v2), (''required'', v3)]"]) simp
  with r f n show ?thesis by (intro conjI)
qed

text \<open>The text of the default input schema, line by line.\<close>

lemma default_input_text:
  \<open>splitLines (formatSchema (input (generateSchemas [])))
     = [''{'',
        ''  "type": "object",'',
        ''  "properties": {'',
        ''    "data": {'',
        ''      "type": "object",'',
        ''      "description": "Your input data"'',
        ''    },'',
        ''    "features": {'',
        ''      "type": "object",'',
        ''      "description": "Relevant features"'',
        ''    },'',
        ''    "metadata": {'',
        ''      "type": "object",'',
        ''      "description": "Additional metadata"'',
        ''    }'',
        ''  },'',
        ''  "required": ['',
        ''    "data"'',
        ''  ]'',
        ''}'']\<close>
  by code_simp

theorem C7_format_round_trip_witness:
  \<open>JSON_parse (formatSchema (input (generateSchemas []))) = Inr (input (generateSchemas []))
   \<and> indentedBy2 (formatSchema (input (generateSchemas [])))
   \<and> splitLines (formatSchema (input (generateSchemas [])))
     = [''{'',
        ''  "type": "object",'',
        ''  "properties": {'',
        ''    "data": {'',
        ''      "type": "object",'',
        ''      "description": "Your input data"'',
        ''    },'',
        ''    "features": {'',
        ''      "type": "object",'',
        ''      "description": "Relevant features"'',
        ''    },'',
        ''    "metadata": {'',
        ''      "type": "object",'',
        ''      "description": "Additional metadata"'',
        ''    }'',
        ''  },'',
        ''  "required": ['',
        ''    "data"'',
        ''  ]'',
        ''}'']\<close>
proof -
  note t = C7_format_round_trip [of "input (generateSchemas [])" "[]", OF disjI1, OF refl]
  from t have r: "JSON_parse (formatSchema (input (generateSchemas []))) = Inr (input (generateSchemas []))"
    by (rule conjunct1)
  from t have n: "indentedBy2 (formatSchema (input (generateSchemas [])))"
    by (elim conjE)
  show ?thesis
    using r n default_input_text by (intro conjI)
qed

end
